theory Spec2Isabelle
  imports Main "HOL-Library.Word" "HOL-Library.Multiset"
begin

section \<open>The video channel of CasparCG: a shallow embedding of video_channel.cpp\<close>

text \<open>
  The embedded source is \<^verbatim>\<open>struct video_channel::impl\<close>: its fields, the loop
  that its thread runs, and its member functions \<^verbatim>\<open>route\<close>, \<^verbatim>\<open>video_format_desc\<close>,
  \<^verbatim>\<open>invoke_timecode_listeners\<close> and \<^verbatim>\<open>add_timecode_listener\<close>.

  The stage, the mixer, the output, the channel timecode, the diagnostics graph, the
  route objects' subscribers and the \<^verbatim>\<open>tick_\<close> callback are collaborators whose code is
  elsewhere. They are parameters of the model: each is a function on one shared
  external state \<open>'w\<close> that either returns or throws. Every call the source makes on a
  collaborator is recorded, with its arguments and with the exception it threw if any,
  in a trace; the mutexes are not modelled, every member function runs atomically.
\<close>

subsection \<open>Values\<close>

type_synonym int64 = "64 word"
type_synonym addr = nat

text \<open>\<^verbatim>\<open>core::video_format_desc\<close>: the members the source reads, apart from \<^verbatim>\<open>fps\<close>,
  a double that only scales the timing values sent to the diagnostics graph. The source
  copies and compares its \<^verbatim>\<open>int\<close> values (sample counts, layer and channel indices) and
  never computes with them, so they are integers here; the one integer it counts with,
  the 64-bit id of a listener, is a word.\<close>

record video_format_desc =
  name :: string
  audio_cadence :: "int list"

datatype exn = Exn string

text \<open>What a call on a collaborator does: it returns a value or throws.\<close>

datatype 'a outcome = Returns 'a | Throws exn

text \<open>What a piece of the channel's own code does: it finishes with a value, it leaves
  by an exception, or it has no defined behaviour (an access outside a vector).\<close>

datatype 'a result = Ok 'a | Raised exn | Undefined

text \<open>\<^verbatim>\<open>monitor::state\<close>: named entries, a collaborator's sub-state or a text.\<close>

datatype 'ms entry = Sub_state 'ms | Text string

type_synonym 'ms monitor_state = "(string \<times> 'ms entry) list"

fun insert_or_assign :: "string \<Rightarrow> 'v \<Rightarrow> (string \<times> 'v) list \<Rightarrow> (string \<times> 'v) list" where
  "insert_or_assign k v [] = [(k, v)]"
| "insert_or_assign k v (kv # kvs) =
     (if fst kv = k then (k, v) # kvs else kv # insert_or_assign k v kvs)"

text \<open>One entry of the trace per call on a collaborator, and one for the snapshot of
  format and cadence that opens a tick.\<close>

datatype ('tc, 'f, 'm, 'ms) event =
    Snapshot video_format_desc int
  | Timecode_tick bool
  | Stage_call video_format_desc int
  | Graph_set_value string
  | Stage_state
  | Listener_call int64 'tc
  | Mixer_call "(int \<times> 'f) list" video_format_desc int
  | Mixer_state
  | Output_call 'tc 'm video_format_desc
  | Route_signal addr 'f
  | Output_state
  | Timecode_source_name
  | Tick_callback "'ms monitor_state"
  | Timecode_change_format video_format_desc
  | Stage_clear

type_synonym ('tc, 'f, 'm, 'ms) trace = "(('tc, 'f, 'm, 'ms) event \<times> exn option) list"

subsection \<open>Shared and weak pointers to routes\<close>

text \<open>\<^verbatim>\<open>core::route\<close> objects live in a heap; a cell keeps the object and the number of
  \<^verbatim>\<open>shared_ptr\<close>s that own it. A \<^verbatim>\<open>weak_ptr\<close> is empty or names a cell, and
  \<^verbatim>\<open>lock()\<close> upgrades it while an owner is left.\<close>

record route =
  route_format_desc :: video_format_desc
  route_name :: string

record route_cell =
  obj :: route
  strong :: nat

type_synonym weak_ptr = "addr option"

definition weak_lock :: "route_cell list \<Rightarrow> weak_ptr \<Rightarrow> addr option" where
  "weak_lock h wp =
     (case wp of
        None \<Rightarrow> None
      | Some a \<Rightarrow> if a < length h \<and> 0 < strong (h ! a) then Some a else None)"

definition acquire :: "addr \<Rightarrow> route_cell list \<Rightarrow> route_cell list" where
  "acquire a h = (if a < length h then h[a := (h ! a)\<lparr>strong := Suc (strong (h ! a))\<rparr>] else h)"

definition release :: "addr \<Rightarrow> route_cell list \<Rightarrow> route_cell list" where
  "release a h = (if a < length h then h[a := (h ! a)\<lparr>strong := strong (h ! a) - 1\<rparr>] else h)"

subsection \<open>\<^verbatim>\<open>boost::lexical_cast<std::wstring>\<close> of an int\<close>

text \<open>The decimal digits of a number, the most significant first.\<close>

function decimal_digits :: "nat \<Rightarrow> nat list" where
  "decimal_digits n = (if n < 10 then [n] else decimal_digits (n div 10) @ [n mod 10])"
  by pat_completeness auto
termination
  by (relation "measure id") auto

definition digit_char :: "nat \<Rightarrow> char" where
  "digit_char d = char_of (d + 48)"

definition lexical_cast :: "int \<Rightarrow> string" where
  "lexical_cast i =
     (let digits = map digit_char (decimal_digits (nat \<bar>i\<bar>))
      in if i < 0 then CHR ''-'' # digits else digits)"

subsection \<open>\<^verbatim>\<open>std::unordered_map\<close>\<close>

text \<open>The listener table is a \<^verbatim>\<open>std::unordered_map\<close>. C++ leaves the order in which
  such a table is iterated to the library, so the table is modelled by the sequence in
  which it iterates, and the place a new element takes in that sequence is a parameter
  (\<open>bucket_slot\<close> below). \<^verbatim>\<open>insert\<close> leaves the table alone when the key is present;
  \<^verbatim>\<open>erase\<close> keeps the order of the elements that stay.\<close>

definition umap_insert :: "nat \<Rightarrow> 'k \<Rightarrow> 'v \<Rightarrow> ('k \<times> 'v) list \<Rightarrow> ('k \<times> 'v) list" where
  "umap_insert pos k v t = (if k \<in> fst ` set t then t else take pos t @ (k, v) # drop pos t)"

definition umap_erase :: "'k \<Rightarrow> ('k \<times> 'v) list \<Rightarrow> ('k \<times> 'v) list" where
  "umap_erase k t = filter (\<lambda>kv. fst kv \<noteq> k) t"

subsection \<open>The state of \<^verbatim>\<open>video_channel::impl\<close>\<close>

type_synonym ('tc, 'w) listener = "'tc \<Rightarrow> 'w \<Rightarrow> unit outcome \<times> 'w"

text \<open>The fields of \<^verbatim>\<open>impl\<close> that the member functions read or write, then the heap of
  route objects and the external state \<open>ext\<close> behind \<^verbatim>\<open>timecode_\<close>, \<^verbatim>\<open>graph_\<close>,
  \<^verbatim>\<open>output_\<close>, \<^verbatim>\<open>mixer_\<close>, \<^verbatim>\<open>stage_\<close> and the callbacks. A member that the source
  writes \<^verbatim>\<open>x_\<close> is the field \<open>ch_x\<close> here, since a name of a record field cannot end
  with an underscore.\<close>

record ('tc, 'ms, 'w) channel =
  ch_state :: "'ms monitor_state"
  ch_index :: int
  ch_format_desc :: video_format_desc
  ch_audio_cadence :: "int list"
  ch_tick :: "'ms monitor_state \<Rightarrow> 'w \<Rightarrow> unit outcome \<times> 'w"
  ch_routes :: "int \<rightharpoonup> weak_ptr"
  last_timecode_listener_id :: int64
  ch_timecode_listeners :: "(int64 \<times> ('tc, 'w) listener) list"
  ch_abort_request :: bool
  heap :: "route_cell list"
  ext :: 'w

text \<open>The collaborators, and the two choices the C++ library makes for the source:
  \<open>bucket_slot\<close>, where the unordered table links a new key among the keys it holds,
  and the frame operations \<^verbatim>\<open>draw_frame::pop\<close> and the \<^verbatim>\<open>draw_frame\<close> built from a vector
  of frames, whose class is not part of the covered source.\<close>

record ('tc, 'f, 'm, 'ms, 'w) environment =
  timecode_tick :: "bool \<Rightarrow> 'w \<Rightarrow> 'tc outcome \<times> 'w"
  timecode_change_format :: "video_format_desc \<Rightarrow> 'w \<Rightarrow> unit outcome \<times> 'w"
  timecode_source_name :: "'w \<Rightarrow> string outcome \<times> 'w"
  timecode_string :: "'tc \<Rightarrow> string"
  stage_call :: "video_format_desc \<Rightarrow> int \<Rightarrow> 'w \<Rightarrow> (int \<times> 'f) list outcome \<times> 'w"
  stage_state :: "'w \<Rightarrow> 'ms outcome \<times> 'w"
  stage_clear :: "'w \<Rightarrow> unit outcome \<times> 'w"
  mixer_call :: "(int \<times> 'f) list \<Rightarrow> video_format_desc \<Rightarrow> int \<Rightarrow> 'w \<Rightarrow> 'm outcome \<times> 'w"
  mixer_state :: "'w \<Rightarrow> 'ms outcome \<times> 'w"
  output_call :: "'tc \<Rightarrow> 'm \<Rightarrow> video_format_desc \<Rightarrow> 'w \<Rightarrow> unit outcome \<times> 'w"
  output_state :: "'w \<Rightarrow> 'ms outcome \<times> 'w"
  graph_set_value :: "string \<Rightarrow> 'w \<Rightarrow> unit outcome \<times> 'w"
  route_signal :: "addr \<Rightarrow> 'f \<Rightarrow> 'w \<Rightarrow> unit outcome \<times> 'w"
  draw_frame_pop :: "'f \<Rightarrow> 'f"
  draw_frame_of_frames :: "'f list \<Rightarrow> 'f"
  bucket_slot :: "int64 \<Rightarrow> int64 list \<Rightarrow> nat"

subsection \<open>Sequencing with exceptions\<close>

type_synonym ('a, 's, 'e) body = "'s \<Rightarrow> 'a result \<times> 's \<times> ('e \<times> exn option) list"

definition return_ok :: "'a \<Rightarrow> ('a, 's, 'e) body" where
  "return_ok x s = (Ok x, s, [])"

definition undefined_behaviour :: "('a, 's, 'e) body" where
  "undefined_behaviour s = (Undefined, s, [])"

definition modify :: "('s \<Rightarrow> 's) \<Rightarrow> (unit, 's, 'e) body" where
  "modify f s = (Ok (), f s, [])"

text \<open>\<open>bnd m f\<close> runs \<open>m\<close>, then \<open>f\<close> on its value; an exception or undefined behaviour in
  \<open>m\<close> skips \<open>f\<close>.\<close>

definition bnd :: "('a, 's, 'e) body \<Rightarrow> ('a \<Rightarrow> ('b, 's, 'e) body) \<Rightarrow> ('b, 's, 'e) body" where
  "bnd m f s =
     (case m s of
        (Ok x, s1, es) \<Rightarrow> (case f x s1 of (r, s2, es') \<Rightarrow> (r, s2, es @ es'))
      | (Raised e, s1, es) \<Rightarrow> (Raised e, s1, es)
      | (Undefined, s1, es) \<Rightarrow> (Undefined, s1, es))"

text \<open>\<^verbatim>\<open>try { m } catch (...) { CASPAR_LOG_CURRENT_EXCEPTION(); }\<close>: the handler logs and
  goes on.\<close>

definition catch_all :: "(unit, 's, 'e) body \<Rightarrow> (unit, 's, 'e) body" where
  "catch_all m s =
     (case m s of
        (Ok x, s1, es) \<Rightarrow> (Ok (), s1, es)
      | (Raised e, s1, es) \<Rightarrow> (Ok (), s1, es)
      | (Undefined, s1, es) \<Rightarrow> (Undefined, s1, es))"

text \<open>A call on a collaborator: it acts on \<open>ext\<close> and is recorded with its outcome.\<close>

definition call ::
  "'e \<Rightarrow> ('w \<Rightarrow> 'a outcome \<times> 'w) \<Rightarrow> ('a, ('tc, 'ms, 'w) channel, 'e) body" where
  "call ev op s =
     (case op (ext s) of
        (Returns x, w) \<Rightarrow> (Ok x, s\<lparr>ext := w\<rparr>, [(ev, None)])
      | (Throws e, w) \<Rightarrow> (Raised e, s\<lparr>ext := w\<rparr>, [(ev, Some e)]))"

subsection \<open>The member functions\<close>

text \<open>\<^verbatim>\<open>std::rotate(first, middle, last)\<close>: the element at \<open>middle\<close> becomes the first.\<close>

definition std_rotate :: "nat \<Rightarrow> 'a list \<Rightarrow> 'a list" where
  "std_rotate middle xs = drop middle xs @ take middle xs"

text \<open>The block under \<^verbatim>\<open>format_desc_mutex_\<close> that opens a tick (lines 130-135). On an
  empty vector \<^verbatim>\<open>std::end(audio_cadence_) - 1\<close> and \<^verbatim>\<open>front()\<close> are undefined.\<close>

definition snapshot ::
  "(video_format_desc \<times> int, ('tc, 'ms, 'w) channel, ('tc, 'f, 'm, 'ms) event) body" where
  "snapshot s =
     (if ch_audio_cadence s = [] then (Undefined, s, [])
      else
        let format_desc = ch_format_desc s;
            s1 = s\<lparr>ch_audio_cadence := std_rotate (length (ch_audio_cadence s) - 1) (ch_audio_cadence s)\<rparr>;
            nb_samples = hd (ch_audio_cadence s1)
        in (Ok (format_desc, nb_samples), s1, [(Snapshot format_desc nb_samples, None)]))"

text \<open>\<^verbatim>\<open>invoke_timecode_listeners\<close> (lines 248-259): a copy of the table is taken, then
  each listener of the copy is called inside its own \<^verbatim>\<open>try\<close>.\<close>

fun call_listeners ::
  "(int64 \<times> ('tc, 'w) listener) list \<Rightarrow> 'tc \<Rightarrow>
     (unit, ('tc, 'ms, 'w) channel, ('tc, 'f, 'm, 'ms) event) body" where
  "call_listeners [] timecode = return_ok ()"
| "call_listeners (listener # listeners) timecode =
     bnd (catch_all (call (Listener_call (fst listener) timecode) (snd listener timecode)))
         (\<lambda>_. call_listeners listeners timecode)"

definition invoke_timecode_listeners ::
  "'tc \<Rightarrow> (unit, ('tc, 'ms, 'w) channel, ('tc, 'f, 'm, 'ms) event) body" where
  "invoke_timecode_listeners timecode s = call_listeners (ch_timecode_listeners s) timecode s"

text \<open>\<^verbatim>\<open>routes_.find(key)\<close> followed by \<^verbatim>\<open>it->second.lock()\<close>.\<close>

definition find_route :: "(int \<rightharpoonup> weak_ptr) \<Rightarrow> route_cell list \<Rightarrow> int \<Rightarrow> addr option" where
  "find_route routes h key =
     (case routes key of None \<Rightarrow> None | Some wp \<Rightarrow> weak_lock h wp)"

text \<open>The loop over \<^verbatim>\<open>stage_frames\<close> (lines 173-183), a \<^verbatim>\<open>std::map\<close> given as the list
  of its pairs in the order of iteration.\<close>

fun signal_layers ::
  "('tc, 'f, 'm, 'ms, 'w) environment \<Rightarrow> (int \<times> 'f) list \<Rightarrow>
     (unit, ('tc, 'ms, 'w) channel, ('tc, 'f, 'm, 'ms) event) body" where
  "signal_layers c [] = return_ok ()"
| "signal_layers c (p # ps) =
     bnd (\<lambda>s. case find_route (ch_routes s) (heap s) (fst p) of
                 None \<Rightarrow> return_ok () s
               | Some r \<Rightarrow>
                   call (Route_signal r (draw_frame_pop c (snd p)))
                        (route_signal c r (draw_frame_pop c (snd p))) s)
         (\<lambda>_. signal_layers c ps)"

text \<open>The block under \<^verbatim>\<open>routes_mutex_\<close> (lines 168-192).\<close>

definition signal_routes ::
  "('tc, 'f, 'm, 'ms, 'w) environment \<Rightarrow> (int \<times> 'f) list \<Rightarrow>
     (unit, ('tc, 'ms, 'w) channel, ('tc, 'f, 'm, 'ms) event) body" where
  "signal_routes c stage_frames =
     bnd (signal_layers c stage_frames)
         (\<lambda>_ s. case find_route (ch_routes s) (heap s) (- 1) of
                   None \<Rightarrow> return_ok () s
                 | Some r \<Rightarrow>
                     call (Route_signal r (draw_frame_of_frames c (map snd stage_frames)))
                          (route_signal c r (draw_frame_of_frames c (map snd stage_frames))) s)"

text \<open>\<^verbatim>\<open>format_desc.audio_cadence[0]\<close>, undefined on an empty vector.\<close>

definition audio_cadence_0 :: "video_format_desc \<Rightarrow> (int, 's, 'e) body" where
  "audio_cadence_0 format_desc =
     (case audio_cadence format_desc of [] \<Rightarrow> undefined_behaviour | n # _ \<Rightarrow> return_ok n)"

text \<open>The body of the \<^verbatim>\<open>try\<close> block of the thread's loop (lines 128-200) follows the
  snapshot in three parts. First: the monitor state is cleared, the timecode is
  predicted, the stage produces, the timecode is committed (lines 137-151).\<close>

definition produce_commit ::
  "('tc, 'f, 'm, 'ms, 'w) environment \<Rightarrow> video_format_desc \<Rightarrow> int \<Rightarrow>
     ((int \<times> 'f) list \<times> 'tc, ('tc, 'ms, 'w) channel, ('tc, 'f, 'm, 'ms) event) body" where
  "produce_commit c format_desc nb_samples =
     bnd (modify (\<lambda>s. s\<lparr>ch_state := []\<rparr>)) (\<lambda>_.
     bnd (call (Timecode_tick False) (timecode_tick c False)) (\<lambda>_.
     bnd (call (Stage_call format_desc nb_samples) (stage_call c format_desc nb_samples)) (\<lambda>stage_frames.
     bnd (call (Graph_set_value ''produce-time'') (graph_set_value c ''produce-time'')) (\<lambda>_.
     bnd (call Stage_state (stage_state c)) (\<lambda>stage_st.
     bnd (modify (\<lambda>s. s\<lparr>ch_state := insert_or_assign ''stage'' (Sub_state stage_st) (ch_state s)\<rparr>)) (\<lambda>_.
     bnd (call (Timecode_tick True) (timecode_tick c True)) (\<lambda>timecode.
     return_ok (stage_frames, timecode))))))))"

text \<open>Last: the mixer, the output, the routes and the monitor state (lines 156-200).\<close>

definition mix_consume_publish ::
  "('tc, 'f, 'm, 'ms, 'w) environment \<Rightarrow> video_format_desc \<Rightarrow> (int \<times> 'f) list \<Rightarrow> 'tc \<Rightarrow>
     (unit, ('tc, 'ms, 'w) channel, ('tc, 'f, 'm, 'ms) event) body" where
  "mix_consume_publish c format_desc stage_frames timecode =
     bnd (audio_cadence_0 format_desc) (\<lambda>nb0.
     bnd (call (Mixer_call stage_frames format_desc nb0)
               (mixer_call c stage_frames format_desc nb0)) (\<lambda>mixed_frame.
     bnd (call (Graph_set_value ''mix-time'') (graph_set_value c ''mix-time'')) (\<lambda>_.
     bnd (call Mixer_state (mixer_state c)) (\<lambda>mixer_st.
     bnd (modify (\<lambda>s. s\<lparr>ch_state := insert_or_assign ''mixer'' (Sub_state mixer_st) (ch_state s)\<rparr>)) (\<lambda>_.
     bnd (call (Output_call timecode mixed_frame format_desc)
               (output_call c timecode mixed_frame format_desc)) (\<lambda>_.
     bnd (call (Graph_set_value ''consume-time'') (graph_set_value c ''consume-time'')) (\<lambda>_.
     bnd (signal_routes c stage_frames) (\<lambda>_.
     bnd (call Output_state (output_state c)) (\<lambda>output_st.
     bnd (modify (\<lambda>s. s\<lparr>ch_state := insert_or_assign ''output'' (Sub_state output_st) (ch_state s)\<rparr>)) (\<lambda>_.
     bnd (modify (\<lambda>s. s\<lparr>ch_state := insert_or_assign ''timecode''
                                      (Text (timecode_string c timecode)) (ch_state s)\<rparr>)) (\<lambda>_.
     bnd (call Timecode_source_name (timecode_source_name c)) (\<lambda>source_name.
     bnd (modify (\<lambda>s. s\<lparr>ch_state := insert_or_assign ''timecode/source''
                                      (Text source_name) (ch_state s)\<rparr>)) (\<lambda>_.
     bnd (\<lambda>s. call (Tick_callback (ch_state s)) (ch_tick s (ch_state s)) s) (\<lambda>_.
     call (Graph_set_value ''osc-time'') (graph_set_value c ''osc-time'')))))))))))))))"

text \<open>The body of the \<^verbatim>\<open>try\<close> block, whole: snapshot, produce and commit, the timecode
  listeners (line 154), then mixer to monitor state.\<close>

definition tick_body ::
  "('tc, 'f, 'm, 'ms, 'w) environment \<Rightarrow>
     (unit, ('tc, 'ms, 'w) channel, ('tc, 'f, 'm, 'ms) event) body" where
  "tick_body c =
     bnd snapshot (\<lambda>(format_desc, nb_samples).
     bnd (produce_commit c format_desc nb_samples) (\<lambda>(stage_frames, timecode).
     bnd (invoke_timecode_listeners timecode) (\<lambda>_.
     mix_consume_publish c format_desc stage_frames timecode)))"

text \<open>One turn of \<^verbatim>\<open>while (!abort_request_) { try { ... } catch (...) { ... } }\<close>:
  the state and the trace it leaves, or nothing when its behaviour is undefined.\<close>

definition tick ::
  "('tc, 'f, 'm, 'ms, 'w) environment \<Rightarrow> ('tc, 'ms, 'w) channel \<Rightarrow>
     (('tc, 'ms, 'w) channel \<times> ('tc, 'f, 'm, 'ms) trace) option" where
  "tick c s =
     (case catch_all (tick_body c) s of
        (Undefined, s1, es) \<Rightarrow> None
      | (_, s1, es) \<Rightarrow> Some (s1, es))"

text \<open>The loop of the thread, for at most \<open>n\<close> turns: the flag \<^verbatim>\<open>abort_request_\<close> is
  read before each turn. The traces of the turns are kept apart.\<close>

fun channel_loop ::
  "('tc, 'f, 'm, 'ms, 'w) environment \<Rightarrow> nat \<Rightarrow> ('tc, 'ms, 'w) channel \<Rightarrow>
     (('tc, 'ms, 'w) channel \<times> ('tc, 'f, 'm, 'ms) trace list) option" where
  "channel_loop c 0 s = Some (s, [])"
| "channel_loop c (Suc n) s =
     (if ch_abort_request s then Some (s, [])
      else case tick c s of
             None \<Rightarrow> None
           | Some (s1, es) \<Rightarrow>
               (case channel_loop c n s1 of
                  None \<Rightarrow> None
                | Some (s2, ess) \<Rightarrow> Some (s2, es # ess)))"

text \<open>\<^verbatim>\<open>~impl\<close> sets the flag (and joins the thread).\<close>

definition request_abort :: "('tc, 'ms, 'w) channel \<Rightarrow> ('tc, 'ms, 'w) channel" where
  "request_abort s = s\<lparr>ch_abort_request := True\<rparr>"

text \<open>\<^verbatim>\<open>route(index)\<close> (lines 215-231). \<^verbatim>\<open>routes_[index]\<close> inserts an empty weak
  pointer when the key is new. The caller receives an owning pointer: the count of the
  cell goes up by one, or a new cell starts with one owner.\<close>

definition route ::
  "int \<Rightarrow> ('tc, 'ms, 'w) channel \<Rightarrow> addr \<times> ('tc, 'ms, 'w) channel" where
  "route index s =
     (let routes = (case ch_routes s index of None \<Rightarrow> (ch_routes s)(index \<mapsto> None) | Some _ \<Rightarrow> ch_routes s)
      in case weak_lock (heap s) (the (routes index)) of
           Some a \<Rightarrow> (a, s\<lparr>ch_routes := routes, heap := acquire a (heap s)\<rparr>)
         | None \<Rightarrow>
             let a = length (heap s);
                 r = \<lparr>route_format_desc = ch_format_desc s,
                      route_name = lexical_cast (ch_index s) @
                        (if index \<noteq> - 1 then ''/'' @ lexical_cast index else [])\<rparr>
             in (a, s\<lparr>ch_routes := routes(index \<mapsto> Some a),
                      heap := heap s @ [\<lparr>obj = r, strong = 1\<rparr>]\<rparr>))"

text \<open>The holder of a route lets its owning pointer go.\<close>

definition drop_route :: "addr \<Rightarrow> ('tc, 'ms, 'w) channel \<Rightarrow> ('tc, 'ms, 'w) channel" where
  "drop_route a s = s\<lparr>heap := release a (heap s)\<rparr>"

text \<open>The setter \<^verbatim>\<open>video_format_desc(format_desc)\<close> (lines 239-246).\<close>

definition set_video_format_desc ::
  "('tc, 'f, 'm, 'ms, 'w) environment \<Rightarrow> video_format_desc \<Rightarrow>
     (unit, ('tc, 'ms, 'w) channel, ('tc, 'f, 'm, 'ms) event) body" where
  "set_video_format_desc c format_desc =
     bnd (modify (\<lambda>s. s\<lparr>ch_format_desc := format_desc\<rparr>)) (\<lambda>_.
     bnd (modify (\<lambda>s. s\<lparr>ch_audio_cadence := audio_cadence (ch_format_desc s)\<rparr>)) (\<lambda>_.
     bnd (call (Timecode_change_format format_desc) (timecode_change_format c format_desc)) (\<lambda>_.
     call Stage_clear (stage_clear c))))"

text \<open>\<^verbatim>\<open>add_timecode_listener\<close> (lines 261-272). The token it returns is a
  \<^verbatim>\<open>shared_ptr<void>\<close> whose deleter erases the id; the model returns the id, and
  \<open>drop_token\<close> is the deleter.\<close>

definition add_timecode_listener ::
  "('tc, 'f, 'm, 'ms, 'w) environment \<Rightarrow> ('tc, 'w) listener \<Rightarrow> ('tc, 'ms, 'w) channel \<Rightarrow>
     int64 \<times> ('tc, 'ms, 'w) channel" where
  "add_timecode_listener c listener s =
     (let listener_id = last_timecode_listener_id s;
          s1 = s\<lparr>last_timecode_listener_id := last_timecode_listener_id s + 1\<rparr>;
          pos = bucket_slot c listener_id (map fst (ch_timecode_listeners s1))
      in (listener_id,
          s1\<lparr>ch_timecode_listeners := umap_insert pos listener_id listener (ch_timecode_listeners s1)\<rparr>))"

definition drop_token :: "int64 \<Rightarrow> ('tc, 'ms, 'w) channel \<Rightarrow> ('tc, 'ms, 'w) channel" where
  "drop_token listener_id s =
     s\<lparr>ch_timecode_listeners := umap_erase listener_id (ch_timecode_listeners s)\<rparr>"

subsection \<open>Reading a run\<close>

definition result_of :: "'r \<times> 's \<times> 'x \<Rightarrow> 'r" where
  "result_of t = fst t"

definition state_of :: "'r \<times> 's \<times> 'x \<Rightarrow> 's" where
  "state_of t = fst (snd t)"

definition trace_of :: "'r \<times> 's \<times> 'x \<Rightarrow> 'x" where
  "trace_of t = snd (snd t)"

fun is_listener_call :: "('tc, 'f, 'm, 'ms) event \<Rightarrow> bool" where
  "is_listener_call (Listener_call k t) = True"
| "is_listener_call _ = False"

text \<open>The sample counts that the ticks of a trace read from the rotated cadence.\<close>

fun nb_samples_of :: "('tc, 'f, 'm, 'ms) event \<times> exn option \<Rightarrow> int list" where
  "nb_samples_of (Snapshot fd n, x) = [n]"
| "nb_samples_of _ = []"

definition nb_samples_used :: "('tc, 'f, 'm, 'ms) trace \<Rightarrow> int list" where
  "nb_samples_used es = concat (map nb_samples_of es)"

text \<open>The ids of the listeners called in a trace, in the order of the calls.\<close>

fun called_ids :: "('tc, 'f, 'm, 'ms) trace \<Rightarrow> int64 list" where
  "called_ids [] = []"
| "called_ids ((Listener_call k t, x) # es) = k # called_ids es"
| "called_ids (_ # es) = called_ids es"

text \<open>The signals of the route fan-out as the specification words them: one popped frame
  for each layer whose route is alive, then one frame made of all the frames for the
  route of the whole channel, key \<open>-1\<close>, if it is alive.\<close>

definition layer_signals ::
  "('tc, 'f, 'm, 'ms, 'w) environment \<Rightarrow> (int \<rightharpoonup> weak_ptr) \<Rightarrow> route_cell list \<Rightarrow>
     (int \<times> 'f) list \<Rightarrow> ('tc, 'f, 'm, 'ms) event list" where
  "layer_signals c routes h stage_frames =
     concat (map (\<lambda>p. case find_route routes h (fst p) of
                         None \<Rightarrow> []
                       | Some a \<Rightarrow> [Route_signal a (draw_frame_pop c (snd p))]) stage_frames)"

definition channel_signal ::
  "('tc, 'f, 'm, 'ms, 'w) environment \<Rightarrow> (int \<rightharpoonup> weak_ptr) \<Rightarrow> route_cell list \<Rightarrow>
     (int \<times> 'f) list \<Rightarrow> ('tc, 'f, 'm, 'ms) event list" where
  "channel_signal c routes h stage_frames =
     (case find_route routes h (- 1) of
        None \<Rightarrow> []
      | Some a \<Rightarrow> [Route_signal a (draw_frame_of_frames c (map snd stage_frames))])"

text \<open>A client of the channel registers listeners and drops tokens; the ids handed out
  are collected in the order of the registrations.\<close>

datatype ('tc, 'w) client_call = Add_listener "('tc, 'w) listener" | Drop_token int64

fun client_calls ::
  "('tc, 'f, 'm, 'ms, 'w) environment \<Rightarrow> ('tc, 'w) client_call list \<Rightarrow> ('tc, 'ms, 'w) channel \<Rightarrow>
     int64 list \<times> ('tc, 'ms, 'w) channel" where
  "client_calls c [] s = ([], s)"
| "client_calls c (Add_listener l # calls) s =
     (case add_timecode_listener c l s of
        (k, s1) \<Rightarrow> (case client_calls c calls s1 of (ks, s2) \<Rightarrow> (k # ks, s2)))"
| "client_calls c (Drop_token k # calls) s = client_calls c calls (drop_token k s)"

subsection \<open>Invariants of the pieces of a tick\<close>

text \<open>The fields that no piece of a tick after the snapshot writes.\<close>

definition same_core :: "('tc, 'ms, 'w) channel \<Rightarrow> ('tc, 'ms, 'w) channel \<Rightarrow> bool" where
  "same_core s s' \<longleftrightarrow>
     ch_index s' = ch_index s \<and> ch_format_desc s' = ch_format_desc s \<and>
     ch_audio_cadence s' = ch_audio_cadence s \<and> ch_tick s' = ch_tick s \<and>
     ch_routes s' = ch_routes s \<and> last_timecode_listener_id s' = last_timecode_listener_id s \<and>
     ch_timecode_listeners s' = ch_timecode_listeners s \<and>
     ch_abort_request s' = ch_abort_request s \<and> heap s' = heap s"

text \<open>A trace in which no call but a listener's threw.\<close>

definition quiet :: "('tc, 'f, 'm, 'ms) trace \<Rightarrow> bool" where
  "quiet es \<longleftrightarrow> (\<forall>x\<in>set es. snd x \<noteq> None \<longrightarrow> is_listener_call (fst x))"

text \<open>The calls that the first and the last part of a tick can make, given the locals
  \<open>format_desc\<close> and \<open>nb_samples\<close> of the tick.\<close>

fun produce_event :: "video_format_desc \<Rightarrow> int \<Rightarrow> ('tc, 'f, 'm, 'ms) event \<Rightarrow> bool" where
  "produce_event fd nb (Timecode_tick commit) = True"
| "produce_event fd nb (Stage_call f n) = (f = fd \<and> n = nb)"
| "produce_event fd nb (Graph_set_value x) = True"
| "produce_event fd nb Stage_state = True"
| "produce_event fd nb _ = False"

fun mix_event :: "video_format_desc \<Rightarrow> ('tc, 'f, 'm, 'ms) event \<Rightarrow> bool" where
  "mix_event fd (Mixer_call fs f n) = (f = fd \<and> audio_cadence fd \<noteq> [] \<and> n = hd (audio_cadence fd))"
| "mix_event fd (Graph_set_value x) = True"
| "mix_event fd Mixer_state = True"
| "mix_event fd (Output_call t m f) = (f = fd)"
| "mix_event fd (Route_signal a f) = True"
| "mix_event fd Output_state = True"
| "mix_event fd Timecode_source_name = True"
| "mix_event fd (Tick_callback st) = True"
| "mix_event fd _ = False"

text \<open>What holds of every run of a piece \<open>m\<close>: it keeps the core fields, its calls
  satisfy \<open>P\<close>, it is undefined only if \<open>U\<close>, and an exception it leaves by was thrown by
  its last call, which is not a listener's.\<close>

definition body_ok ::
  "bool \<Rightarrow> (('tc, 'f, 'm, 'ms) event \<Rightarrow> bool) \<Rightarrow>
     ('a, ('tc, 'ms, 'w) channel, ('tc, 'f, 'm, 'ms) event) body \<Rightarrow> bool" where
  "body_ok U P m \<longleftrightarrow>
     (\<forall>s r s' es. m s = (r, s', es) \<longrightarrow>
        same_core s s' \<and> (\<forall>x\<in>set es. P (fst x)) \<and> (r = Undefined \<longrightarrow> U) \<and>
        (case r of
           Raised e \<Rightarrow> es \<noteq> [] \<and> snd (last es) = Some e \<and>
                       \<not> is_listener_call (fst (last es)) \<and> quiet (butlast es)
         | _ \<Rightarrow> quiet es))"

subsection \<open>A channel and collaborators to run\<close>

datatype frame = Producer_frame nat | Popped frame | Frames "frame list"

text \<open>Collaborators that always return. The external state is the frame counter of the
  timecode; a new key of the listener table goes to the head of its sequence, as in a
  hash table that links a node of an empty bucket at the head of its element list.\<close>

definition test_env :: "(nat, frame, nat, string, nat) environment" where
  "test_env =
     \<lparr>timecode_tick = (\<lambda>commit w. (Returns (Suc w), if commit then Suc w else w)),
      timecode_change_format = (\<lambda>fd w. (Returns (), w)),
      timecode_source_name = (\<lambda>w. (Returns ''system'', w)),
      timecode_string = (\<lambda>t. lexical_cast (int t)),
      stage_call = (\<lambda>fd nb w. (Returns [(0, Producer_frame 0), (1, Producer_frame 1)], w)),
      stage_state = (\<lambda>w. (Returns ''stage'', w)),
      stage_clear = (\<lambda>w. (Returns (), w)),
      mixer_call = (\<lambda>fs fd nb w. (Returns (length fs), w)),
      mixer_state = (\<lambda>w. (Returns ''mixer'', w)),
      output_call = (\<lambda>t m fd w. (Returns (), w)),
      output_state = (\<lambda>w. (Returns ''output'', w)),
      graph_set_value = (\<lambda>n w. (Returns (), w)),
      route_signal = (\<lambda>a f w. (Returns (), w)),
      draw_frame_pop = Popped,
      draw_frame_of_frames = Frames,
      bucket_slot = (\<lambda>k ks. 0)\<rparr>"

definition ntsc :: video_format_desc where
  "ntsc = \<lparr>name = ''1080i5994'', audio_cadence = [1602, 1601, 1602, 1601, 1602]\<rparr>"

definition pal :: video_format_desc where
  "pal = \<lparr>name = ''1080i5000'', audio_cadence = [1920]\<rparr>"

definition test_channel :: "(nat, string, nat) channel" where
  "test_channel =
     \<lparr>ch_state = [], ch_index = 1, ch_format_desc = ntsc,
      ch_audio_cadence = audio_cadence ntsc,
      ch_tick = (\<lambda>st w. (Returns (), w)),
      ch_routes = Map.empty, last_timecode_listener_id = 0,
      ch_timecode_listeners = [], ch_abort_request = False, heap = [], ext = 0\<rparr>"

definition silent_listener :: "(nat, nat) listener" where
  "silent_listener t w = (Returns (), w)"

definition failing_listener :: "(nat, nat) listener" where
  "failing_listener t w = (Throws (Exn ''listener''), w)"

definition failing_mixer_env :: "(nat, frame, nat, string, nat) environment" where
  "failing_mixer_env = test_env\<lparr>mixer_call := (\<lambda>fs fd nb w. (Throws (Exn ''mixer''), w))\<rparr>"

text \<open>The channel after its first tick: the owned cadence has turned once.\<close>

definition rotated_channel :: "(nat, string, nat) channel" where
  "rotated_channel = test_channel\<lparr>ch_audio_cadence := [1602, 1602, 1601, 1602, 1601]\<rparr>"

text \<open>Two registrations: the silent listener gets id 0, the failing one id 1.\<close>

definition registered_channel :: "(nat, string, nat) channel" where
  "registered_channel =
     snd (add_timecode_listener test_env failing_listener
            (snd (add_timecode_listener test_env silent_listener test_channel)))"

text \<open>The channel with a route asked for layer 0 and one for the whole channel, both
  held by their callers.\<close>

definition routed_channel :: "(nat, string, nat) channel" where
  "routed_channel = snd (route (- 1) (snd (route 0 test_channel)))"

section \<open>Proofs\<close>

subsection \<open>Runs that finish\<close>

lemma bnd_Ok:
  "bnd m f s = (Ok y, s', es) \<longleftrightarrow>
     (\<exists>x s1 es1 es2. m s = (Ok x, s1, es1) \<and> f x s1 = (Ok y, s', es2) \<and> es = es1 @ es2)"
  by (auto simp: bnd_def split: prod.splits result.splits)

lemma call_Ok:
  "call ev op s = (Ok x, s', es) \<longleftrightarrow>
     (\<exists>w. op (ext s) = (Returns x, w) \<and> s' = s\<lparr>ext := w\<rparr> \<and> es = [(ev, None)])"
  by (auto simp: call_def split: prod.splits outcome.splits)

lemma modify_Ok: "modify g s = (Ok x, s', es) \<longleftrightarrow> s' = g s \<and> es = []"
  by (auto simp: modify_def)

lemma return_ok_Ok: "return_ok v s = (Ok x, s', es) \<longleftrightarrow> x = v \<and> s' = s \<and> es = []"
  by (auto simp: return_ok_def)

lemma audio_cadence_0_Ok:
  "audio_cadence_0 fd s = (Ok n, s', es) \<longleftrightarrow>
     audio_cadence fd \<noteq> [] \<and> n = hd (audio_cadence fd) \<and> s' = s \<and> es = []"
  by (auto simp: audio_cadence_0_def return_ok_def undefined_behaviour_def split: list.splits)

lemma std_rotate_last: "xs \<noteq> [] \<Longrightarrow> std_rotate (length xs - Suc 0) xs = last xs # butlast xs"
  by (induction xs rule: rev_induct) (simp_all add: std_rotate_def)

lemma snapshot_eq:
  "ch_audio_cadence s \<noteq> [] \<Longrightarrow>
   snapshot s =
     (Ok (ch_format_desc s, last (ch_audio_cadence s)),
      s\<lparr>ch_audio_cadence := last (ch_audio_cadence s) # butlast (ch_audio_cadence s)\<rparr>,
      [(Snapshot (ch_format_desc s) (last (ch_audio_cadence s)), None)])"
  by (simp add: snapshot_def Let_def std_rotate_last)

lemma same_core_refl: "same_core s s"
  by (simp add: same_core_def)

lemma same_core_trans: "same_core s s1 \<Longrightarrow> same_core s1 s2 \<Longrightarrow> same_core s s2"
  by (simp add: same_core_def)

lemma quiet_append: "quiet (es1 @ es2) \<longleftrightarrow> quiet es1 \<and> quiet es2"
  by (auto simp: quiet_def)

lemma body_ok_return: "body_ok U P (return_ok x)"
  by (simp add: body_ok_def return_ok_def same_core_def quiet_def)

lemma body_ok_undefined: "U \<Longrightarrow> body_ok U P undefined_behaviour"
  by (simp add: body_ok_def undefined_behaviour_def same_core_def quiet_def)

lemma body_ok_modify: "(\<And>s. same_core s (g s)) \<Longrightarrow> body_ok U P (modify g)"
  by (simp add: body_ok_def modify_def quiet_def)

lemma body_ok_call_dep:
  "(\<And>s. P (ev s)) \<Longrightarrow> (\<And>s. \<not> is_listener_call (ev s)) \<Longrightarrow> body_ok U P (\<lambda>s. call (ev s) (op s) s)"
  by (auto simp: body_ok_def call_def same_core_def quiet_def split: prod.splits outcome.splits)

lemma body_ok_call: "P ev \<Longrightarrow> \<not> is_listener_call ev \<Longrightarrow> body_ok U P (call ev op)"
  using body_ok_call_dep[of P "\<lambda>_. ev" U "\<lambda>_. op"] by simp

lemma body_ok_listener:
  "P (Listener_call k tc) \<Longrightarrow> body_ok U P (catch_all (call (Listener_call k tc) op))"
  by (auto simp: body_ok_def catch_all_def call_def same_core_def quiet_def
      split: prod.splits outcome.splits)

lemma body_ok_bnd:
  assumes m: "body_ok U P m" and f: "\<And>x. body_ok U P (f x)"
  shows "body_ok U P (bnd m f)"
  unfolding body_ok_def
proof (intro allI impI)
  fix s r s' es
  assume run: "bnd m f s = (r, s', es)"
  obtain r1 s1 es1 where m1: "m s = (r1, s1, es1)" by (cases "m s") auto
  from m m1 have k1: "same_core s s1" "\<forall>x\<in>set es1. P (fst x)" "r1 = Undefined \<longrightarrow> U"
    "case r1 of Raised e \<Rightarrow> es1 \<noteq> [] \<and> snd (last es1) = Some e \<and>
        \<not> is_listener_call (fst (last es1)) \<and> quiet (butlast es1) | _ \<Rightarrow> quiet es1"
    unfolding body_ok_def by blast+
  show "same_core s s' \<and> (\<forall>x\<in>set es. P (fst x)) \<and> (r = Undefined \<longrightarrow> U) \<and>
        (case r of Raised e \<Rightarrow> es \<noteq> [] \<and> snd (last es) = Some e \<and>
            \<not> is_listener_call (fst (last es)) \<and> quiet (butlast es) | _ \<Rightarrow> quiet es)"
  proof (cases r1)
    case (Ok x)
    obtain r2 s2 es2 where f2: "f x s1 = (r2, s2, es2)" by (cases "f x s1") auto
    from f[of x] f2 have k2: "same_core s1 s2" "\<forall>x\<in>set es2. P (fst x)" "r2 = Undefined \<longrightarrow> U"
      "case r2 of Raised e \<Rightarrow> es2 \<noteq> [] \<and> snd (last es2) = Some e \<and>
          \<not> is_listener_call (fst (last es2)) \<and> quiet (butlast es2) | _ \<Rightarrow> quiet es2"
      unfolding body_ok_def by blast+
    from run m1 Ok f2 have eq: "r = r2" "s' = s2" "es = es1 @ es2"
      by (simp_all add: bnd_def)
    from k1(4) Ok have q1: "quiet es1" by simp
    show ?thesis
      using k1(1,2) k2 q1 unfolding eq
      by (cases r2) (auto simp: quiet_append butlast_append intro: same_core_trans)
  next
    case (Raised e)
    with run m1 have "r = Raised e" "s' = s1" "es = es1" by (simp_all add: bnd_def)
    with k1 Raised show ?thesis by simp
  next
    case Undefined
    with run m1 have "r = Undefined" "s' = s1" "es = es1" by (simp_all add: bnd_def)
    with k1 Undefined show ?thesis by simp
  qed
qed

lemma body_ok_weaken:
  "body_ok U P m \<Longrightarrow> (U \<Longrightarrow> U') \<Longrightarrow> (\<And>ev. P ev \<Longrightarrow> Q ev) \<Longrightarrow> body_ok U' Q m"
  unfolding body_ok_def by blast

lemma body_ok_audio_cadence_0: "body_ok (audio_cadence fd = []) P (audio_cadence_0 fd)"
  by (cases "audio_cadence fd") (simp_all add: audio_cadence_0_def body_ok_return body_ok_undefined)

lemma body_ok_route_step:
  "(\<And>a. P (Route_signal a f)) \<Longrightarrow>
   body_ok U P (\<lambda>s. case find_route (ch_routes s) (heap s) k of
                       None \<Rightarrow> return_ok () s
                     | Some r \<Rightarrow> call (Route_signal r f) (op r) s)"
  by (auto simp: body_ok_def call_def return_ok_def same_core_def quiet_def
      split: option.splits prod.splits outcome.splits)

lemma body_ok_signal_layers: "(\<And>a f. P (Route_signal a f)) \<Longrightarrow> body_ok U P (signal_layers c ps)"
  by (induction ps) (auto intro!: body_ok_return body_ok_bnd body_ok_route_step)

lemma body_ok_signal_routes: "(\<And>a f. P (Route_signal a f)) \<Longrightarrow> body_ok U P (signal_routes c fs)"
  unfolding signal_routes_def
  by (intro body_ok_bnd body_ok_signal_layers body_ok_route_step) auto

lemma body_ok_call_listeners:
  "(\<And>k. P (Listener_call k tc)) \<Longrightarrow> body_ok U P (call_listeners ls tc)"
  by (induction ls) (auto intro!: body_ok_return body_ok_bnd body_ok_listener)

lemma body_ok_produce_commit: "body_ok U (produce_event fd nb) (produce_commit c fd nb)"
  unfolding produce_commit_def
  by (intro body_ok_bnd body_ok_call body_ok_modify body_ok_return) (simp_all add: same_core_def)

lemma bnd_return_ok: "bnd (return_ok x) f = f x"
  by (rule ext) (simp add: bnd_def return_ok_def split: prod.splits)

lemma bnd_undefined_behaviour: "bnd undefined_behaviour f = undefined_behaviour"
  by (rule ext) (simp add: bnd_def undefined_behaviour_def)

lemma body_ok_mix_consume_publish:
  "body_ok (audio_cadence fd = []) (mix_event fd) (mix_consume_publish c fd fs tc)"
proof (cases "audio_cadence fd")
  case Nil
  then show ?thesis
    by (simp add: mix_consume_publish_def audio_cadence_0_def bnd_undefined_behaviour
        body_ok_undefined)
next
  case (Cons n ns)
  then have "mix_event fd (Mixer_call fs fd n)" by simp
  then show ?thesis
    unfolding mix_consume_publish_def audio_cadence_0_def Cons list.case bnd_return_ok
    by (intro body_ok_bnd body_ok_call body_ok_call_dep body_ok_modify body_ok_return
        body_ok_signal_routes) (simp_all add: same_core_def)
qed

lemma body_okD:
  assumes "body_ok U P m" and "m s = (r, s', es)"
  shows "same_core s s'" and "\<forall>x\<in>set es. P (fst x)" and "r = Undefined \<Longrightarrow> U"
    and "r = Raised e \<Longrightarrow> es \<noteq> [] \<and> snd (last es) = Some e \<and>
           \<not> is_listener_call (fst (last es)) \<and> quiet (butlast es)"
    and "(\<And>e. r \<noteq> Raised e) \<Longrightarrow> quiet es"
proof -
  from assms have k: "same_core s s' \<and> (\<forall>x\<in>set es. P (fst x)) \<and> (r = Undefined \<longrightarrow> U) \<and>
        (case r of
           Raised e \<Rightarrow> es \<noteq> [] \<and> snd (last es) = Some e \<and>
                       \<not> is_listener_call (fst (last es)) \<and> quiet (butlast es)
         | _ \<Rightarrow> quiet es)"
    unfolding body_ok_def by blast
  from k show "same_core s s'" and "\<forall>x\<in>set es. P (fst x)" by simp_all
  from k show "r = Undefined \<Longrightarrow> U" by simp
  from k show "r = Raised e \<Longrightarrow> es \<noteq> [] \<and> snd (last es) = Some e \<and>
           \<not> is_listener_call (fst (last es)) \<and> quiet (butlast es)" by simp
  from k show "(\<And>e. r \<noteq> Raised e) \<Longrightarrow> quiet es" by (cases r) auto
qed

lemma call_listeners_Ok:
  fixes es :: "('tc, 'f, 'm, 'ms) trace"
  assumes "call_listeners ls tc s = (r, s', es)"
  shows "r = Ok ()"
proof -
  have ok: "body_ok False is_listener_call (call_listeners ls tc)"
    by (rule body_ok_call_listeners) simp
  show ?thesis
  proof (cases r)
    case (Raised e)
    from body_okD(4)[OF ok assms Raised] body_okD(2)[OF ok assms]
    show ?thesis using last_in_set by blast
  next
    case Undefined
    from body_okD(3)[OF ok assms Undefined] show ?thesis ..
  qed simp
qed

lemma tick_body_cases:
  fixes es :: "('tc, 'f, 'm, 'ms) trace" and c :: "('tc, 'f, 'm, 'ms, 'w) environment"
  assumes run: "tick_body c s = (r, s', es)" and ne: "ch_audio_cadence s \<noteq> []"
  defines "fd \<equiv> ch_format_desc s" and "nb \<equiv> last (ch_audio_cadence s)"
    and "s0 \<equiv> s\<lparr>ch_audio_cadence := last (ch_audio_cadence s) # butlast (ch_audio_cadence s)\<rparr>"
  obtains (stopped) e esP where "produce_commit c fd nb s0 = (Raised e, s', esP)" "r = Raised e"
      "es = (Snapshot fd nb, None) # esP"
    | (committed) fs tc sP esP sL esL esM where
      "produce_commit c fd nb s0 = (Ok (fs, tc), sP, esP)"
      "call_listeners (ch_timecode_listeners sP) tc sP = (Ok (), sL, esL)"
      "mix_consume_publish c fd fs tc sL = (r, s', esM)"
      "es = (Snapshot fd nb, None) # esP @ esL @ esM"
proof -
  obtain rP sP and esP :: "('tc, 'f, 'm, 'ms) trace"
    where P: "produce_commit c fd nb s0 = (rP, sP, esP)"
    by (cases "produce_commit c fd nb s0") auto
  show thesis
  proof (cases rP)
    case (Ok x)
    obtain fs tc where x: "x = (fs, tc)" by (cases x) auto
    obtain rL sL and esL :: "('tc, 'f, 'm, 'ms) trace"
      where L: "call_listeners (ch_timecode_listeners sP) tc sP = (rL, sL, esL)"
      by (cases "call_listeners (ch_timecode_listeners sP) tc sP :: _ \<times> _ \<times> ('tc, 'f, 'm, 'ms) trace") auto
    have rL: "rL = Ok ()" using call_listeners_Ok[OF L] .
    obtain rM sM and esM :: "('tc, 'f, 'm, 'ms) trace"
      where M: "mix_consume_publish c fd fs tc sL = (rM, sM, esM)"
      by (cases "mix_consume_publish c fd fs tc sL") auto
    from run ne P Ok x L rL M have "r = rM" "s' = sM" "es = (Snapshot fd nb, None) # esP @ esL @ esM"
      by (simp_all add: tick_body_def bnd_def snapshot_eq invoke_timecode_listeners_def
          fd_def nb_def s0_def)
    with committed P Ok x L rL M show ?thesis by simp
  next
    case (Raised e)
    with run ne P have "r = Raised e" "s' = sP" "es = (Snapshot fd nb, None) # esP"
      by (simp_all add: tick_body_def bnd_def snapshot_eq fd_def nb_def s0_def)
    with stopped P Raised show ?thesis by simp
  next
    case Undefined
    with P body_ok_produce_commit[of False fd nb c] show ?thesis
      unfolding body_ok_def by blast
  qed
qed


lemma produce_commit_Ok:
  fixes es :: "('tc, 'f, 'm, 'ms) trace"
  assumes "produce_commit c fd nb s = (Ok (fs, tc), s', es)"
  shows "map fst es = [Timecode_tick False, Stage_call fd nb, Graph_set_value ''produce-time'',
                       Stage_state, Timecode_tick True]"
    and "\<exists>w w'. timecode_tick c True w = (Returns tc, w')"
    and "\<exists>w w'. stage_call c fd nb w = (Returns fs, w')"
  using assms
  by (auto simp: produce_commit_def bnd_Ok call_Ok modify_Ok return_ok_Ok)

lemma signal_layers_Ok:
  fixes es :: "('tc, 'f, 'm, 'ms) trace"
  shows "signal_layers c ps s = (Ok u, s', es) \<Longrightarrow>
     map fst es = layer_signals c (ch_routes s) (heap s) ps \<and> (\<forall>x\<in>set es. snd x = None)"
proof (induction ps arbitrary: s s' es)
  case Nil
  then show ?case by (simp add: return_ok_def layer_signals_def)
next
  case (Cons p ps)
  from Cons.prems obtain s1 and es1 es2 :: "('tc, 'f, 'm, 'ms) trace" where
    step: "(case find_route (ch_routes s) (heap s) (fst p) of
              None \<Rightarrow> return_ok () s
            | Some a \<Rightarrow> call (Route_signal a (draw_frame_pop c (snd p)))
                               (route_signal c a (draw_frame_pop c (snd p))) s) = (Ok (), s1, es1)"
    and rest: "signal_layers c ps s1 = (Ok u, s', es2)" and es: "es = es1 @ es2"
    by (auto simp: bnd_Ok)
  from step have s1: "ch_routes s1 = ch_routes s" "heap s1 = heap s"
    "map fst es1 = (case find_route (ch_routes s) (heap s) (fst p) of None \<Rightarrow> []
                     | Some a \<Rightarrow> [Route_signal a (draw_frame_pop c (snd p))])"
    "\<forall>x\<in>set es1. snd x = None"
    by (auto simp: return_ok_Ok call_Ok split: option.splits)
  from Cons.IH[OF rest] s1 es show ?case
    by (auto simp: layer_signals_def)
qed

lemma signal_routes_Ok:
  fixes es :: "('tc, 'f, 'm, 'ms) trace"
  assumes "signal_routes c fs s = (Ok u, s', es)"
  shows "map fst es = layer_signals c (ch_routes s) (heap s) fs @ channel_signal c (ch_routes s) (heap s) fs"
    and "\<forall>x\<in>set es. snd x = None"
proof -
  from assms obtain s1 and es1 es2 :: "('tc, 'f, 'm, 'ms) trace" where
    layers: "signal_layers c fs s = (Ok (), s1, es1)"
    and last: "(case find_route (ch_routes s1) (heap s1) (- 1) of
              None \<Rightarrow> return_ok () s1
            | Some a \<Rightarrow> call (Route_signal a (draw_frame_of_frames c (map snd fs)))
                               (route_signal c a (draw_frame_of_frames c (map snd fs))) s1) = (Ok u, s', es2)"
    and es: "es = es1 @ es2"
    by (auto simp: signal_routes_def bnd_Ok)
  have "same_core s s1"
    by (rule body_okD(1)[OF body_ok_signal_layers[of "\<lambda>_. True" False] layers]) simp
  then have fr: "ch_routes s1 = ch_routes s" "heap s1 = heap s"
    by (simp_all add: same_core_def)
  from last have s1: "map fst es2 = channel_signal c (ch_routes s) (heap s) fs"
    "\<forall>x\<in>set es2. snd x = None"
    unfolding fr channel_signal_def
    by (auto simp: return_ok_Ok call_Ok split: option.splits)
  from signal_layers_Ok[OF layers] s1 es
  show "map fst es = layer_signals c (ch_routes s) (heap s) fs @ channel_signal c (ch_routes s) (heap s) fs"
    and "\<forall>x\<in>set es. snd x = None" by auto
qed

lemma mix_consume_publish_Ok:
  fixes es :: "('tc, 'f, 'm, 'ms) trace"
  assumes "mix_consume_publish c fd fs tc s = (Ok u, s', es)"
  shows "\<exists>mixed_frame published.
     map fst es =
       [Mixer_call fs fd (hd (audio_cadence fd)), Graph_set_value ''mix-time'', Mixer_state,
        Output_call tc mixed_frame fd, Graph_set_value ''consume-time'']
       @ layer_signals c (ch_routes s) (heap s) fs @ channel_signal c (ch_routes s) (heap s) fs
       @ [Output_state, Timecode_source_name, Tick_callback published,
          Graph_set_value ''osc-time'']"
  using assms
  apply (clarsimp simp: mix_consume_publish_def bnd_Ok call_Ok modify_Ok audio_cadence_0_Ok)
  apply (frule signal_routes_Ok(1))
  apply simp
  done

lemma call_listeners_events:
  fixes es :: "('tc, 'f, 'm, 'ms) trace"
  shows "call_listeners ls tc s = (r, s', es) \<Longrightarrow>
     map fst es = map (\<lambda>l. Listener_call (fst l) tc) ls"
proof (induction ls arbitrary: s r s' es)
  case Nil
  then show ?case by (simp add: return_ok_def)
next
  case (Cons l ls)
  obtain r1 s1 and es1 :: "('tc, 'f, 'm, 'ms) trace" where
    one: "catch_all (call (Listener_call (fst l) tc) (snd l tc)) s = (r1, s1, es1)"
    by (cases "catch_all (call (Listener_call (fst l) tc) (snd l tc)) s
                :: _ \<times> _ \<times> ('tc, 'f, 'm, 'ms) trace") auto
  then have r1: "r1 = Ok ()" "map fst es1 = [Listener_call (fst l) tc]"
    by (auto simp: catch_all_def call_def split: prod.splits outcome.splits)
  obtain r2 s2 and es2 :: "('tc, 'f, 'm, 'ms) trace" where
    two: "call_listeners ls tc s1 = (r2, s2, es2)"
    by (cases "call_listeners ls tc s1 :: _ \<times> _ \<times> ('tc, 'f, 'm, 'ms) trace") auto
  from Cons.prems one r1 two have "es = es1 @ es2"
    by (simp add: bnd_def)
  with Cons.IH[OF two] r1 show ?case by simp
qed


subsection \<open>The order of the stages of a tick\<close>

text \<open>
  Claim C3. A tick that no exception leaves does all its stages, in one order: the
  cadence is rotated (the snapshot reads its last element, which becomes the first),
  the timecode is predicted, the stage produces, the timecode is committed, every
  timecode listener is called, the mixer mixes, the output consumes, the routes are
  signalled and the monitor state is published. The trace of the tick is exactly this
  sequence of calls.
\<close>

theorem tick_stage_order:
  fixes c :: "('tc, 'f, 'm, 'ms, 'w) environment"
  assumes "result_of (tick_body c s) = Ok ()"
  shows "\<exists>stage_frames timecode mixed_frame published.
     ch_audio_cadence (state_of (tick_body c s)) =
       last (ch_audio_cadence s) # butlast (ch_audio_cadence s) \<and>
     map fst (trace_of (tick_body c s)) =
       [Snapshot (ch_format_desc s) (last (ch_audio_cadence s)),
        Timecode_tick False,
        Stage_call (ch_format_desc s) (last (ch_audio_cadence s)),
        Graph_set_value ''produce-time'', Stage_state,
        Timecode_tick True]
       @ map (\<lambda>l. Listener_call (fst l) timecode) (ch_timecode_listeners s)
       @ [Mixer_call stage_frames (ch_format_desc s) (hd (audio_cadence (ch_format_desc s))),
          Graph_set_value ''mix-time'', Mixer_state,
          Output_call timecode mixed_frame (ch_format_desc s),
          Graph_set_value ''consume-time'']
       @ layer_signals c (ch_routes s) (heap s) stage_frames
       @ channel_signal c (ch_routes s) (heap s) stage_frames
       @ [Output_state, Timecode_source_name, Tick_callback published,
          Graph_set_value ''osc-time'']"
proof -
  obtain s' and es :: "('tc, 'f, 'm, 'ms) trace" where run: "tick_body c s = (Ok (), s', es)"
    using assms by (cases "tick_body c s") (auto simp: result_of_def)
  have ne: "ch_audio_cadence s \<noteq> []"
    using run by (auto simp: tick_body_def bnd_def snapshot_def)
  from run ne show ?thesis
  proof (cases rule: tick_body_cases)
    case (stopped e esP)
    then show ?thesis by simp
  next
    case (committed fs tc sP esP sL esL esM)
    let ?s0 = "s\<lparr>ch_audio_cadence := last (ch_audio_cadence s) # butlast (ch_audio_cadence s)\<rparr>"
    have cP: "same_core ?s0 sP"
      by (rule body_okD(1)[OF body_ok_produce_commit committed(1)])
    have cL: "same_core sP sL"
      by (rule body_okD(1)[OF body_ok_call_listeners[of "\<lambda>_. True" _ False] committed(2)]) simp
    have cM: "same_core sL s'"
      by (rule body_okD(1)[OF body_ok_mix_consume_publish committed(3)])
    from mix_consume_publish_Ok[OF committed(3)] obtain mixed_frame published where
      M: "map fst esM =
       [Mixer_call fs (ch_format_desc s) (hd (audio_cadence (ch_format_desc s))),
        Graph_set_value ''mix-time'', Mixer_state,
        Output_call tc mixed_frame (ch_format_desc s), Graph_set_value ''consume-time'']
       @ layer_signals c (ch_routes sL) (heap sL) fs @ channel_signal c (ch_routes sL) (heap sL) fs
       @ [Output_state, Timecode_source_name, Tick_callback published,
          Graph_set_value ''osc-time'']" by blast
    from cP cL cM have eqs: "ch_routes sL = ch_routes s" "heap sL = heap s"
      "ch_timecode_listeners sP = ch_timecode_listeners s"
      "ch_audio_cadence s' = last (ch_audio_cadence s) # butlast (ch_audio_cadence s)"
      by (simp_all add: same_core_def)
    have "map fst es =
       [Snapshot (ch_format_desc s) (last (ch_audio_cadence s)),
        Timecode_tick False,
        Stage_call (ch_format_desc s) (last (ch_audio_cadence s)),
        Graph_set_value ''produce-time'', Stage_state,
        Timecode_tick True]
       @ map (\<lambda>l. Listener_call (fst l) tc) (ch_timecode_listeners s)
       @ [Mixer_call fs (ch_format_desc s) (hd (audio_cadence (ch_format_desc s))),
          Graph_set_value ''mix-time'', Mixer_state,
          Output_call tc mixed_frame (ch_format_desc s),
          Graph_set_value ''consume-time'']
       @ layer_signals c (ch_routes s) (heap s) fs
       @ channel_signal c (ch_routes s) (heap s) fs
       @ [Output_state, Timecode_source_name, Tick_callback published,
          Graph_set_value ''osc-time'']"
      using committed(4) produce_commit_Ok(1)[OF committed(1)]
        call_listeners_events[OF committed(2)] M eqs by simp
    with eqs(4) run show ?thesis
      unfolding state_of_def trace_of_def by (intro exI[of _ fs] exI[of _ tc] exI[of _ mixed_frame] exI[of _ published]) simp
  qed
qed


theorem tick_stage_order_witness:
  "result_of (tick_body test_env test_channel) = Ok () \<and>
   (\<exists>stage_frames timecode mixed_frame published.
     ch_audio_cadence (state_of (tick_body test_env test_channel)) =
       last (ch_audio_cadence test_channel) # butlast (ch_audio_cadence test_channel) \<and>
     map fst (trace_of (tick_body test_env test_channel)) =
       [Snapshot (ch_format_desc test_channel) (last (ch_audio_cadence test_channel)),
        Timecode_tick False,
        Stage_call (ch_format_desc test_channel) (last (ch_audio_cadence test_channel)),
        Graph_set_value ''produce-time'', Stage_state,
        Timecode_tick True]
       @ map (\<lambda>l. Listener_call (fst l) timecode) (ch_timecode_listeners test_channel)
       @ [Mixer_call stage_frames (ch_format_desc test_channel)
            (hd (audio_cadence (ch_format_desc test_channel))),
          Graph_set_value ''mix-time'', Mixer_state,
          Output_call timecode mixed_frame (ch_format_desc test_channel),
          Graph_set_value ''consume-time'']
       @ layer_signals test_env (ch_routes test_channel) (heap test_channel) stage_frames
       @ channel_signal test_env (ch_routes test_channel) (heap test_channel) stage_frames
       @ [Output_state, Timecode_source_name, Tick_callback published,
          Graph_set_value ''osc-time''])"
proof -
  have h: "result_of (tick_body test_env test_channel) = Ok ()"
    by code_simp
  from tick_stage_order[OF h] h show ?thesis by blast
qed

subsection \<open>Every run of a tick\<close>

lemma quiet_Cons_None: "quiet ((ev, None) # es) \<longleftrightarrow> quiet es"
  by (simp add: quiet_def)

lemma quiet_listeners:
  fixes es :: "('tc, 'f, 'm, 'ms) trace"
  assumes "call_listeners ls tc s = (r, s', es)"
  shows "quiet es" and "same_core s s'" and "\<forall>x\<in>set es. is_listener_call (fst x)"
proof -
  have ok: "body_ok False is_listener_call (call_listeners ls tc)"
    by (rule body_ok_call_listeners) simp
  have "r = Ok ()" using call_listeners_Ok[OF assms] .
  then show "quiet es" using body_okD(5)[OF ok assms] by simp
  show "same_core s s'" using body_okD(1)[OF ok assms] .
  show "\<forall>x\<in>set es. is_listener_call (fst x)" using body_okD(2)[OF ok assms] .
qed

text \<open>What every run of the body of a tick looks like, whatever the collaborators do.\<close>

lemma tick_body_props:
  fixes es :: "('tc, 'f, 'm, 'ms) trace" and c :: "('tc, 'f, 'm, 'ms, 'w) environment"
  assumes run: "tick_body c s = (r, s', es)" and ne: "ch_audio_cadence s \<noteq> []"
  shows "same_core (s\<lparr>ch_audio_cadence := last (ch_audio_cadence s) # butlast (ch_audio_cadence s)\<rparr>) s'"
    and "r = Undefined \<Longrightarrow> audio_cadence (ch_format_desc s) = []"
    and "r = Raised e \<Longrightarrow> es \<noteq> [] \<and> snd (last es) = Some e \<and>
           \<not> is_listener_call (fst (last es)) \<and> quiet (butlast es)"
    and "(\<And>e. r \<noteq> Raised e) \<Longrightarrow> quiet es"
    and "\<exists>es'. es = (Snapshot (ch_format_desc s) (last (ch_audio_cadence s)), None) # es' \<and>
           (\<forall>x\<in>set es'. produce_event (ch_format_desc s) (last (ch_audio_cadence s)) (fst x) \<or>
                          is_listener_call (fst x) \<or> mix_event (ch_format_desc s) (fst x))"
proof -
  let ?fd = "ch_format_desc s" and ?nb = "last (ch_audio_cadence s)"
  let ?s0 = "s\<lparr>ch_audio_cadence := last (ch_audio_cadence s) # butlast (ch_audio_cadence s)\<rparr>"
  have all: "same_core ?s0 s' \<and> (r = Undefined \<longrightarrow> audio_cadence ?fd = []) \<and>
     (\<forall>e. r = Raised e \<longrightarrow> es \<noteq> [] \<and> snd (last es) = Some e \<and>
           \<not> is_listener_call (fst (last es)) \<and> quiet (butlast es)) \<and>
     ((\<forall>e. r \<noteq> Raised e) \<longrightarrow> quiet es) \<and>
     (\<exists>es'. es = (Snapshot ?fd ?nb, None) # es' \<and>
           (\<forall>x\<in>set es'. produce_event ?fd ?nb (fst x) \<or> is_listener_call (fst x) \<or>
                          mix_event ?fd (fst x)))"
    using run ne
  proof (cases rule: tick_body_cases)
    case (stopped e0 esP)
    note P = body_okD[OF body_ok_produce_commit[of False] stopped(1)]
    from P(4)[OF refl] have l: "esP \<noteq> []" "snd (last esP) = Some e0"
      "\<not> is_listener_call (fst (last esP))" "quiet (butlast esP)" by simp_all
    from l P(1,2) stopped(2,3) show ?thesis
      by (auto simp: quiet_Cons_None)
  next
    case (committed fs tc sP esP sL esL esM)
    note P = body_okD[OF body_ok_produce_commit[of False] committed(1)]
    note L = quiet_listeners[OF committed(2)]
    note M = body_okD[OF body_ok_mix_consume_publish committed(3)]
    have qP: "quiet esP" using P(5) by simp
    have core: "same_core ?s0 s'"
      using P(1) L(2) M(1) by (blast intro: same_core_trans)
    have ev: "\<forall>x\<in>set (esP @ esL @ esM). produce_event ?fd ?nb (fst x) \<or>
                is_listener_call (fst x) \<or> mix_event ?fd (fst x)"
      using P(2) L(3) M(2) by auto
    have raised: "\<forall>e. r = Raised e \<longrightarrow> es \<noteq> [] \<and> snd (last es) = Some e \<and>
           \<not> is_listener_call (fst (last es)) \<and> quiet (butlast es)"
    proof (intro allI impI)
      fix e assume r: "r = Raised e"
      from M(4)[OF r] have m: "esM \<noteq> []" "snd (last esM) = Some e"
        "\<not> is_listener_call (fst (last esM))" "quiet (butlast esM)" by simp_all
      then show "es \<noteq> [] \<and> snd (last es) = Some e \<and>
           \<not> is_listener_call (fst (last es)) \<and> quiet (butlast es)"
        using committed(4) qP L(1)
        by (simp add: butlast_append quiet_append quiet_Cons_None)
    qed
    have notraised: "(\<forall>e. r \<noteq> Raised e) \<longrightarrow> quiet es"
      using M(5) committed(4) qP L(1) by (simp add: quiet_append quiet_Cons_None)
    from core M(3) raised notraised ev committed(4) show ?thesis by simp
  qed
  from all show "same_core ?s0 s'" by simp
  from all show "r = Undefined \<Longrightarrow> audio_cadence (ch_format_desc s) = []" by simp
  from all show "r = Raised e \<Longrightarrow> es \<noteq> [] \<and> snd (last es) = Some e \<and>
           \<not> is_listener_call (fst (last es)) \<and> quiet (butlast es)" by simp
  from all show "(\<And>e. r \<noteq> Raised e) \<Longrightarrow> quiet es" by simp
  from all show "\<exists>es'. es = (Snapshot ?fd ?nb, None) # es' \<and>
           (\<forall>x\<in>set es'. produce_event ?fd ?nb (fst x) \<or> is_listener_call (fst x) \<or>
                          mix_event ?fd (fst x))" by simp
qed

lemma tick_body_empty_cadence:
  "ch_audio_cadence s = [] \<Longrightarrow> tick_body c s = (Undefined, s, [])"
  by (simp add: tick_body_def bnd_def snapshot_def)

lemma tick_eq:
  "tick c s = (if result_of (tick_body c s) = Undefined then None
               else Some (state_of (tick_body c s), trace_of (tick_body c s)))"
  by (cases "tick_body c s" rule: prod_cases3)
     (auto simp: tick_def catch_all_def result_of_def state_of_def trace_of_def split: result.splits)


lemma bnd_Raised:
  "bnd m f s = (Raised e, s', es) \<longleftrightarrow>
     m s = (Raised e, s', es) \<or>
     (\<exists>x s1 es1 es2. m s = (Ok x, s1, es1) \<and> f x s1 = (Raised e, s', es2) \<and> es = es1 @ es2)"
  by (auto simp: bnd_def split: prod.splits result.splits)

lemma call_Raised:
  "call ev op s = (Raised e, s', es) \<longleftrightarrow>
     (\<exists>w. op (ext s) = (Throws e, w) \<and> s' = s\<lparr>ext := w\<rparr> \<and> es = [(ev, Some e)])"
  by (auto simp: call_def split: prod.splits outcome.splits)

lemma modify_Raised: "modify g s = (Raised e, s', es) \<longleftrightarrow> False"
  by (simp add: modify_def)

lemma return_ok_Raised: "return_ok v s = (Raised e, s', es) \<longleftrightarrow> False"
  by (simp add: return_ok_def)

lemma produce_commit_Raised:
  fixes es :: "('tc, 'f, 'm, 'ms) trace"
  assumes "produce_commit c fd nb s = (Raised e, s', es)"
  shows "(Timecode_tick True, None) \<notin> set es"
  using assms
  by (auto simp: produce_commit_def bnd_Raised call_Raised modify_Raised return_ok_Raised
      call_Ok modify_Ok)

lemma mix_event_not_listener: "mix_event fd ev \<Longrightarrow> \<not> is_listener_call ev"
  by (cases ev) simp_all


subsection \<open>Exceptions in a tick\<close>

text \<open>
  Claim C4. An exception thrown by any call of the tick other than a timecode listener's
  (the stage, the mixer, the output, a route's signal, the publication of the monitor
  state and the calls between them) leaves the body of the tick and is caught by the
  handler of the loop: the throwing call is the last entry of the trace of the tick, so
  nothing of that tick runs after it, and no other such exception occurred before it.
  The loop goes on: its flag is unchanged, its next turn is a tick on the state left
  behind, and that tick opens with its own snapshot.
\<close>

theorem tick_exception_caught:
  fixes c :: "('tc, 'f, 'm, 'ms, 'w) environment"
  assumes thrown: "(ev, Some e) \<in> set (trace_of (tick_body c s))"
    and guarded: "\<not> is_listener_call ev"
  shows "result_of (tick_body c s) = Raised e \<and>
     last (trace_of (tick_body c s)) = (ev, Some e) \<and>
     (\<forall>x\<in>set (butlast (trace_of (tick_body c s))). snd x \<noteq> None \<longrightarrow> is_listener_call (fst x)) \<and>
     tick c s = Some (state_of (tick_body c s), trace_of (tick_body c s)) \<and>
     ch_abort_request (state_of (tick_body c s)) = ch_abort_request s \<and>
     channel_loop c (Suc n) s =
       (if ch_abort_request s then Some (s, [])
        else case channel_loop c n (state_of (tick_body c s)) of
               None \<Rightarrow> None
             | Some (s2, ess) \<Rightarrow> Some (s2, trace_of (tick_body c s) # ess)) \<and>
     (\<exists>es'. trace_of (tick_body c (state_of (tick_body c s))) =
        (Snapshot (ch_format_desc s) (last (ch_audio_cadence (state_of (tick_body c s)))), None) # es')"
proof -
  obtain r s' and es :: "('tc, 'f, 'm, 'ms) trace" where run: "tick_body c s = (r, s', es)"
    by (cases "tick_body c s") auto
  have mem: "(ev, Some e) \<in> set es" using thrown run by (simp add: trace_of_def)
  have ne: "ch_audio_cadence s \<noteq> []"
    using mem run tick_body_empty_cadence[of s c] by (cases "ch_audio_cadence s = []") auto
  note props = tick_body_props[OF run ne]
  have notq: "\<not> quiet es" using mem guarded by (force simp: quiet_def)
  then obtain e' where r: "r = Raised e'" using props(4) by blast
  from props(3)[OF r] have l: "es \<noteq> []" "snd (last es) = Some e'"
    "\<not> is_listener_call (fst (last es))" "quiet (butlast es)" by simp_all
  have "(ev, Some e) \<notin> set (butlast es)" using l(4) guarded by (force simp: quiet_def)
  with mem l(1) have last: "last es = (ev, Some e)"
    by (metis append_butlast_last_id insert_iff list.set(2) set_append Un_iff empty_iff list.set(1))
  with l(2) have e: "e' = e" by simp
  have core: "same_core (s\<lparr>ch_audio_cadence := last (ch_audio_cadence s) # butlast (ch_audio_cadence s)\<rparr>) s'"
    using props(1) .
  then have ne': "ch_audio_cadence s' \<noteq> []" and fd': "ch_format_desc s' = ch_format_desc s"
    and ab: "ch_abort_request s' = ch_abort_request s"
    by (simp_all add: same_core_def)
  obtain r2 s2 and es2 :: "('tc, 'f, 'm, 'ms) trace" where run2: "tick_body c s' = (r2, s2, es2)"
    by (cases "tick_body c s'") auto
  from tick_body_props(5)[OF run2 ne'] fd' obtain es' where
    next_tick: "es2 = (Snapshot (ch_format_desc s) (last (ch_audio_cadence s')), None) # es'" by auto
  have t: "tick c s = Some (s', es)"
    using run r by (simp add: tick_eq result_of_def state_of_def trace_of_def)
  have sel: "result_of (tick_body c s) = Raised e" "state_of (tick_body c s) = s'"
    "trace_of (tick_body c s) = es" "trace_of (tick_body c s') = es2"
    using run r e run2 by (simp_all add: result_of_def state_of_def trace_of_def)
  show ?thesis
    unfolding sel using last l(4) t ab next_tick by (simp add: quiet_def)
qed




theorem tick_exception_caught_witness:
  "(Mixer_call [(0, Producer_frame 0), (1, Producer_frame 1)] ntsc 1602, Some (Exn ''mixer''))
     \<in> set (trace_of (tick_body failing_mixer_env test_channel)) \<and>
   \<not> is_listener_call
       (Mixer_call [(0, Producer_frame 0), (1, Producer_frame 1)] ntsc 1602
          :: (nat, frame, nat, string) event) \<and>
   result_of (tick_body failing_mixer_env test_channel) = Raised (Exn ''mixer'') \<and>
   last (trace_of (tick_body failing_mixer_env test_channel)) =
     (Mixer_call [(0, Producer_frame 0), (1, Producer_frame 1)] ntsc 1602, Some (Exn ''mixer'')) \<and>
   tick failing_mixer_env test_channel =
     Some (state_of (tick_body failing_mixer_env test_channel),
           trace_of (tick_body failing_mixer_env test_channel)) \<and>
   channel_loop failing_mixer_env (Suc 1) test_channel =
     (if ch_abort_request test_channel then Some (test_channel, [])
      else case channel_loop failing_mixer_env 1 (state_of (tick_body failing_mixer_env test_channel)) of
             None \<Rightarrow> None
           | Some (s2, ess) \<Rightarrow> Some (s2, trace_of (tick_body failing_mixer_env test_channel) # ess))"
proof -
  have thrown: "(Mixer_call [(0, Producer_frame 0), (1, Producer_frame 1)] ntsc 1602, Some (Exn ''mixer''))
     \<in> set (trace_of (tick_body failing_mixer_env test_channel))"
    by code_simp
  have guarded: "\<not> is_listener_call
       (Mixer_call [(0, Producer_frame 0), (1, Producer_frame 1)] ntsc 1602
          :: (nat, frame, nat, string) event)"
    by simp
  from tick_exception_caught[OF thrown guarded, of 1] thrown guarded show ?thesis
    by blast
qed

subsection \<open>The sample counts of the stage and of the mixer\<close>

text \<open>
  Claim C10. In every tick that reaches the mixer, the mixer is called with the first
  element of the cadence of the format descriptor that the tick copied, a vector that
  no tick rotates, and the stage has been called with the front of the rotated cadence
  of the channel. When that front is not the first element of the descriptor's
  cadence, the two sample counts of the tick differ.
\<close>

theorem mixer_and_stage_sample_counts:
  fixes c :: "('tc, 'f, 'm, 'ms, 'w) environment"
  assumes mixed: "(Mixer_call fs fd n, x) \<in> set (trace_of (tick_body c s))"
  shows "fd = ch_format_desc s \<and>
     audio_cadence (ch_format_desc s) \<noteq> [] \<and>
     n = hd (audio_cadence (ch_format_desc s)) \<and>
     ch_format_desc (state_of (tick_body c s)) = ch_format_desc s \<and>
     ch_audio_cadence (state_of (tick_body c s)) =
       last (ch_audio_cadence s) # butlast (ch_audio_cadence s) \<and>
     (Stage_call fd (hd (ch_audio_cadence (state_of (tick_body c s)))), None)
        \<in> set (trace_of (tick_body c s)) \<and>
     (\<forall>f k y. (Stage_call f k, y) \<in> set (trace_of (tick_body c s)) \<longrightarrow>
        k = hd (ch_audio_cadence (state_of (tick_body c s)))) \<and>
     (hd (ch_audio_cadence (state_of (tick_body c s))) \<noteq> hd (audio_cadence (ch_format_desc s)) \<longrightarrow>
        hd (ch_audio_cadence (state_of (tick_body c s))) \<noteq> n)"
proof -
  obtain r s' and es :: "('tc, 'f, 'm, 'ms) trace" where run: "tick_body c s = (r, s', es)"
    by (cases "tick_body c s") auto
  have mem: "(Mixer_call fs fd n, x) \<in> set es" using mixed run by (simp add: trace_of_def)
  have ne: "ch_audio_cadence s \<noteq> []"
    using mem run tick_body_empty_cadence[of s c] by (cases "ch_audio_cadence s = []") auto
  let ?fd = "ch_format_desc s" and ?nb = "last (ch_audio_cadence s)"
  have core: "same_core (s\<lparr>ch_audio_cadence := ?nb # butlast (ch_audio_cadence s)\<rparr>) s'"
    using tick_body_props(1)[OF run ne] .
  then have st: "ch_format_desc s' = ?fd" "ch_audio_cadence s' = ?nb # butlast (ch_audio_cadence s)"
    by (simp_all add: same_core_def)
  from tick_body_props(5)[OF run ne] obtain es' where es': "es = (Snapshot ?fd ?nb, None) # es'"
    and evs: "\<forall>x\<in>set es'. produce_event ?fd ?nb (fst x) \<or> is_listener_call (fst x) \<or> mix_event ?fd (fst x)"
    by blast
  from mem es' have mem': "(Mixer_call fs fd n, x) \<in> set es'" by simp
  from bspec[OF evs mem'] have "mix_event ?fd (Mixer_call fs fd n)" by simp
  then have mix: "fd = ?fd" "audio_cadence ?fd \<noteq> []" "n = hd (audio_cadence ?fd)" by simp_all
  have stage_args: "\<forall>f k y. (Stage_call f k, y) \<in> set es \<longrightarrow> k = ?nb"
  proof (intro allI impI)
    fix f k y assume "(Stage_call f k, y) \<in> set es"
    with es' have sc: "(Stage_call f k, y) \<in> set es'" by simp
    from bspec[OF evs sc] show "k = ?nb" by simp
  qed
  have stage: "(Stage_call ?fd ?nb, None) \<in> set es"
    using run ne
  proof (cases rule: tick_body_cases)
    case (stopped e esP)
    from mem stopped(3) have mP: "(Mixer_call fs fd n, x) \<in> set esP" by simp
    from bspec[OF body_okD(2)[OF body_ok_produce_commit[of False] stopped(1)] mP]
    show ?thesis by simp
  next
    case (committed fs' tc sP esP sL esL esM)
    have "Stage_call ?fd ?nb \<in> set (map fst esP)"
      unfolding produce_commit_Ok(1)[OF committed(1)] by simp
    then obtain y where y: "(Stage_call ?fd ?nb, y) \<in> set esP" by auto
    have "quiet esP"
      using body_okD(5)[OF body_ok_produce_commit[of False] committed(1)] by simp
    then have "\<forall>x\<in>set esP. snd x \<noteq> None \<longrightarrow> is_listener_call (fst x)"
      unfolding quiet_def .
    from bspec[OF this y] have "y = None" by simp
    with y committed(4) show ?thesis by simp
  qed
  have sel: "state_of (tick_body c s) = s'" "trace_of (tick_body c s) = es"
    using run by (simp_all add: state_of_def trace_of_def)
  have hd': "hd (ch_audio_cadence s') = ?nb" using st(2) by simp
  have stage': "(Stage_call fd ?nb, None) \<in> set es" using stage mix(1) by simp
  have differ: "?nb \<noteq> hd (audio_cadence ?fd) \<longrightarrow> ?nb \<noteq> n" using mix(3) by simp
  show ?thesis
    unfolding sel hd'
    using mix(1) mix(2) mix(3) st(1) st(2) stage' stage_args differ by (intro conjI)
qed



theorem mixer_and_stage_sample_counts_witness:
  "(Mixer_call [(0, Producer_frame 0), (1, Producer_frame 1)] ntsc 1602, None)
     \<in> set (trace_of (tick_body test_env rotated_channel)) \<and>
   hd (ch_audio_cadence (state_of (tick_body test_env rotated_channel))) = 1601 \<and>
   (Stage_call ntsc (hd (ch_audio_cadence (state_of (tick_body test_env rotated_channel)))), None)
     \<in> set (trace_of (tick_body test_env rotated_channel)) \<and>
   hd (audio_cadence (ch_format_desc rotated_channel)) = 1602 \<and>
   hd (ch_audio_cadence (state_of (tick_body test_env rotated_channel))) \<noteq> 1602"
proof -
  have mixed: "(Mixer_call [(0, Producer_frame 0), (1, Producer_frame 1)] ntsc 1602, None)
     \<in> set (trace_of (tick_body test_env rotated_channel))"
    by code_simp
  have front: "hd (ch_audio_cadence (state_of (tick_body test_env rotated_channel))) = 1601"
    by code_simp
  have first: "hd (audio_cadence (ch_format_desc rotated_channel)) = 1602"
    by code_simp
  from mixer_and_stage_sample_counts[OF mixed] mixed front first show ?thesis
    by simp
qed

subsection \<open>Listeners that throw\<close>

text \<open>
  Claim C7. The invocation of the timecode listeners never leaves by an exception: an
  exception of a listener is caught inside the loop over the copy of the table, and
  the call of every listener of the copy is in the trace, once, with the timecode
  given. In a tick whose commit of the timecode returned, the calls of listeners are
  exactly the listeners of the table, each once, with the timecode that the commit
  returned.
\<close>

theorem listener_exceptions_swallowed:
  fixes c :: "('tc, 'f, 'm, 'ms, 'w) environment" and s :: "('tc, 'ms, 'w) channel"
  shows "result_of (invoke_timecode_listeners t s
            :: unit result \<times> ('tc, 'ms, 'w) channel \<times> ('tc, 'f, 'm, 'ms) trace) = Ok () \<and>
     map fst (trace_of (invoke_timecode_listeners t s
            :: unit result \<times> ('tc, 'ms, 'w) channel \<times> ('tc, 'f, 'm, 'ms) trace)) =
       map (\<lambda>l. Listener_call (fst l) t) (ch_timecode_listeners s) \<and>
     ((Timecode_tick True, None) \<in> set (trace_of (tick_body c s)) \<longrightarrow>
        (\<exists>timecode. (\<exists>w w'. timecode_tick c True w = (Returns timecode, w')) \<and>
           filter is_listener_call (map fst (trace_of (tick_body c s))) =
             map (\<lambda>l. Listener_call (fst l) timecode) (ch_timecode_listeners s)))"
proof (intro conjI impI)
  obtain rL sL and esL :: "('tc, 'f, 'm, 'ms) trace" where
    L: "call_listeners (ch_timecode_listeners s) t s = (rL, sL, esL)"
    by (cases "call_listeners (ch_timecode_listeners s) t s
                :: _ \<times> _ \<times> ('tc, 'f, 'm, 'ms) trace") auto
  from call_listeners_Ok[OF L] L
  show "result_of (invoke_timecode_listeners t s
            :: unit result \<times> ('tc, 'ms, 'w) channel \<times> ('tc, 'f, 'm, 'ms) trace) = Ok ()"
    by (simp add: invoke_timecode_listeners_def result_of_def)
  from call_listeners_events[OF L] L
  show "map fst (trace_of (invoke_timecode_listeners t s
            :: unit result \<times> ('tc, 'ms, 'w) channel \<times> ('tc, 'f, 'm, 'ms) trace)) =
       map (\<lambda>l. Listener_call (fst l) t) (ch_timecode_listeners s)"
    by (simp add: invoke_timecode_listeners_def trace_of_def)
next
  assume committed_tick: "(Timecode_tick True, None) \<in> set (trace_of (tick_body c s))"
  obtain r s' and es :: "('tc, 'f, 'm, 'ms) trace" where run: "tick_body c s = (r, s', es)"
    by (cases "tick_body c s") auto
  have mem: "(Timecode_tick True, None) \<in> set es"
    using committed_tick run by (simp add: trace_of_def)
  have ne: "ch_audio_cadence s \<noteq> []"
    using mem run tick_body_empty_cadence[of s c] by (cases "ch_audio_cadence s = []") auto
  let ?fd = "ch_format_desc s" and ?nb = "last (ch_audio_cadence s)"
  have "\<exists>timecode. (\<exists>w w'. timecode_tick c True w = (Returns timecode, w')) \<and>
           filter is_listener_call (map fst es) =
             map (\<lambda>l. Listener_call (fst l) timecode) (ch_timecode_listeners s)"
    using run ne
  proof (cases rule: tick_body_cases)
    case (stopped e esP)
    from produce_commit_Raised[OF stopped(1)] mem stopped(3) show ?thesis by simp
  next
    case (committed fs tc sP esP sL esL esM)
    have lP: "ch_timecode_listeners sP = ch_timecode_listeners s"
      using body_okD(1)[OF body_ok_produce_commit[of False] committed(1)]
      by (simp add: same_core_def)
    have fP: "filter is_listener_call (map fst esP) = []"
      unfolding produce_commit_Ok(1)[OF committed(1)] by simp
    have fL: "filter is_listener_call (map fst esL) = map fst esL"
      using quiet_listeners(3)[OF committed(2)] by (simp add: filter_id_conv)
    have "\<forall>x\<in>set esM. \<not> is_listener_call (fst x)"
      using body_okD(2)[OF body_ok_mix_consume_publish committed(3)] mix_event_not_listener
      by blast
    then have fM: "filter is_listener_call (map fst esM) = []"
      by (simp add: filter_empty_conv)
    have "filter is_listener_call (map fst es) =
        map (\<lambda>l. Listener_call (fst l) tc) (ch_timecode_listeners s)"
      using committed(4) fP fL fM call_listeners_events[OF committed(2)] lP by simp
    with produce_commit_Ok(2)[OF committed(1)] show ?thesis by blast
  qed
  then show "\<exists>timecode. (\<exists>w w'. timecode_tick c True w = (Returns timecode, w')) \<and>
           filter is_listener_call (map fst (trace_of (tick_body c s))) =
             map (\<lambda>l. Listener_call (fst l) timecode) (ch_timecode_listeners s)"
    using run by (simp add: trace_of_def)
qed


theorem listener_exceptions_swallowed_witness:
  "(Timecode_tick True, None) \<in> set (trace_of (tick_body test_env registered_channel)) \<and>
   (Listener_call 1 1, Some (Exn ''listener'')) \<in> set (trace_of (tick_body test_env registered_channel)) \<and>
   (\<exists>timecode. (\<exists>w w'. timecode_tick test_env True w = (Returns timecode, w')) \<and>
      filter is_listener_call (map fst (trace_of (tick_body test_env registered_channel))) =
        map (\<lambda>l. Listener_call (fst l) timecode) (ch_timecode_listeners registered_channel))"
proof -
  have committed_tick:
    "(Timecode_tick True, None) \<in> set (trace_of (tick_body test_env registered_channel))"
    by code_simp
  have failed:
    "(Listener_call 1 1, Some (Exn ''listener'')) \<in> set (trace_of (tick_body test_env registered_channel))"
    by code_simp
  from listener_exceptions_swallowed[of 1 registered_channel test_env] committed_tick failed
  show ?thesis by blast
qed

subsection \<open>The audio cadence\<close>

lemma nb_samples_of_later:
  "produce_event fd nb (fst x) \<or> is_listener_call (fst x) \<or> mix_event fd (fst x) \<Longrightarrow>
   nb_samples_of x = []"
  by (cases x, cases "fst x") auto

lemma tick_rotates:
  fixes c :: "('tc, 'f, 'm, 'ms, 'w) environment"
  assumes ne: "ch_audio_cadence s \<noteq> []" and fdne: "audio_cadence (ch_format_desc s) \<noteq> []"
  shows "\<exists>s1 es. tick c s = Some (s1, es) \<and>
     same_core (s\<lparr>ch_audio_cadence := last (ch_audio_cadence s) # butlast (ch_audio_cadence s)\<rparr>) s1 \<and>
     nb_samples_used es = [last (ch_audio_cadence s)]"
proof -
  obtain r s' and es :: "('tc, 'f, 'm, 'ms) trace" where run: "tick_body c s = (r, s', es)"
    by (cases "tick_body c s") auto
  note props = tick_body_props[OF run ne]
  have r: "r \<noteq> Undefined" using props(2) fdne by blast
  then have t: "tick c s = Some (s', es)"
    using run by (simp add: tick_eq result_of_def state_of_def trace_of_def)
  from props(5) obtain es' where es': "es = (Snapshot (ch_format_desc s) (last (ch_audio_cadence s)), None) # es'"
    and evs: "\<forall>x\<in>set es'. produce_event (ch_format_desc s) (last (ch_audio_cadence s)) (fst x) \<or>
                is_listener_call (fst x) \<or> mix_event (ch_format_desc s) (fst x)" by blast
  have "\<forall>x\<in>set es'. nb_samples_of x = []"
    using evs nb_samples_of_later by blast
  then have "concat (map nb_samples_of es') = []" by simp
  then have "nb_samples_used es = [last (ch_audio_cadence s)]"
    using es' by (simp add: nb_samples_used_def)
  with t props(1) show ?thesis by blast
qed

lemma loop_cadence:
  fixes c :: "('tc, 'f, 'm, 'ms, 'w) environment"
  shows "ch_audio_cadence s = xs @ ys \<Longrightarrow> audio_cadence (ch_format_desc s) \<noteq> [] \<Longrightarrow>
     \<not> ch_abort_request s \<Longrightarrow>
     \<exists>s' ess. channel_loop c (length ys) s = Some (s', ess) \<and>
        map nb_samples_used ess = map (\<lambda>y. [y]) (rev ys) \<and>
        ch_audio_cadence s' = ys @ xs"
proof (induction ys arbitrary: s xs rule: rev_induct)
  case Nil
  then show ?case by simp
next
  case (snoc y ys)
  have ne: "ch_audio_cadence s \<noteq> []" using snoc.prems(1) by simp
  from tick_rotates[OF ne snoc.prems(2), of c] obtain s1 es where
    t: "tick c s = Some (s1, es)"
    and core: "same_core (s\<lparr>ch_audio_cadence := last (ch_audio_cadence s) # butlast (ch_audio_cadence s)\<rparr>) s1"
    and nb: "nb_samples_used es = [last (ch_audio_cadence s)]" by blast
  have l: "last (ch_audio_cadence s) = y" "butlast (ch_audio_cadence s) = xs @ ys"
    using snoc.prems(1) by (simp_all add: butlast_append)
  from core l have s1: "ch_audio_cadence s1 = (y # xs) @ ys"
    "audio_cadence (ch_format_desc s1) \<noteq> []" "\<not> ch_abort_request s1"
    using snoc.prems(2,3) by (simp_all add: same_core_def)
  from snoc.IH[OF s1] obtain s' ess where
    rest: "channel_loop c (length ys) s1 = Some (s', ess)"
    "map nb_samples_used ess = map (\<lambda>y. [y]) (rev ys)" "ch_audio_cadence s' = ys @ y # xs"
    by blast
  have "channel_loop c (length (ys @ [y])) s = Some (s', es # ess)"
    using t rest(1) snoc.prems(3) by simp
  with rest nb l show ?case by simp
qed

text \<open>
  Claim C1. A tick rotates the cadence vector of the channel by one place, the last
  element becoming the first, and reads the new front as its \<open>nb_samples\<close>. So from any
  state of a running channel with a cadence of length \<open>L\<close>, the next \<open>L\<close> ticks read
  the elements of the cadence from the last to the first, each once: the values read
  are the cadence as a multiset, their sum is the sum of the cadence, and the vector is
  back where it was. Both cadence vectors are taken to be non-empty, as those of every
  video format are; on an empty one the tick has no defined behaviour.
\<close>

theorem cadence_rotation:
  fixes c :: "('tc, 'f, 'm, 'ms, 'w) environment"
  assumes ne: "ch_audio_cadence s \<noteq> []" and fdne: "audio_cadence (ch_format_desc s) \<noteq> []"
    and live: "\<not> ch_abort_request s"
  shows "(\<exists>s1 es. tick c s = Some (s1, es) \<and>
            ch_audio_cadence s1 = last (ch_audio_cadence s) # butlast (ch_audio_cadence s) \<and>
            nb_samples_used es = [hd (ch_audio_cadence s1)]) \<and>
         (\<exists>s' ess. channel_loop c (length (ch_audio_cadence s)) s = Some (s', ess) \<and>
            length ess = length (ch_audio_cadence s) \<and>
            map nb_samples_used ess = map (\<lambda>n. [n]) (rev (ch_audio_cadence s)) \<and>
            mset (concat (map nb_samples_used ess)) = mset (ch_audio_cadence s) \<and>
            sum_list (concat (map nb_samples_used ess)) = sum_list (ch_audio_cadence s) \<and>
            ch_audio_cadence s' = ch_audio_cadence s)"
proof
  from tick_rotates[OF ne fdne, of c] obtain s1 es where
    t: "tick c s = Some (s1, es)"
    and core: "same_core (s\<lparr>ch_audio_cadence := last (ch_audio_cadence s) # butlast (ch_audio_cadence s)\<rparr>) s1"
    and nb: "nb_samples_used es = [last (ch_audio_cadence s)]" by blast
  from core have "ch_audio_cadence s1 = last (ch_audio_cadence s) # butlast (ch_audio_cadence s)"
    by (simp add: same_core_def)
  with t nb show "\<exists>s1 es. tick c s = Some (s1, es) \<and>
            ch_audio_cadence s1 = last (ch_audio_cadence s) # butlast (ch_audio_cadence s) \<and>
            nb_samples_used es = [hd (ch_audio_cadence s1)]" by simp
next
  from loop_cadence[of s "[]" "ch_audio_cadence s" c, OF _ fdne live] obtain s' ess where
    run: "channel_loop c (length (ch_audio_cadence s)) s = Some (s', ess)"
    and nbs: "map nb_samples_used ess = map (\<lambda>n. [n]) (rev (ch_audio_cadence s))"
    and again: "ch_audio_cadence s' = ch_audio_cadence s" by auto
  have len: "length ess = length (ch_audio_cadence s)"
    using arg_cong[OF nbs, of length] by simp
  have flat: "concat (map nb_samples_used ess) = rev (ch_audio_cadence s)"
    unfolding nbs by (induction "rev (ch_audio_cadence s)") simp_all
  from run len nbs flat again
  show "\<exists>s' ess. channel_loop c (length (ch_audio_cadence s)) s = Some (s', ess) \<and>
            length ess = length (ch_audio_cadence s) \<and>
            map nb_samples_used ess = map (\<lambda>n. [n]) (rev (ch_audio_cadence s)) \<and>
            mset (concat (map nb_samples_used ess)) = mset (ch_audio_cadence s) \<and>
            sum_list (concat (map nb_samples_used ess)) = sum_list (ch_audio_cadence s) \<and>
            ch_audio_cadence s' = ch_audio_cadence s"
    by simp
qed


theorem cadence_rotation_witness:
  "ch_audio_cadence test_channel \<noteq> [] \<and> audio_cadence (ch_format_desc test_channel) \<noteq> [] \<and>
   \<not> ch_abort_request test_channel \<and>
   (\<exists>s' ess. channel_loop test_env 5 test_channel = Some (s', ess) \<and>
      map nb_samples_used ess = [[1602], [1601], [1602], [1601], [1602]] \<and>
      sum_list (concat (map nb_samples_used ess)) = 8008 \<and>
      ch_audio_cadence s' = [1602, 1601, 1602, 1601, 1602])"
proof -
  have a: "ch_audio_cadence test_channel \<noteq> []" by code_simp
  have b: "audio_cadence (ch_format_desc test_channel) \<noteq> []" by code_simp
  have d: "\<not> ch_abort_request test_channel" by code_simp
  have l: "ch_audio_cadence test_channel = [1602, 1601, 1602, 1601, 1602]"
    by (simp add: test_channel_def ntsc_def)
  have len: "length (ch_audio_cadence test_channel) = 5" by (simp add: l)
  have rv: "map (\<lambda>n. [n]) (rev (ch_audio_cadence test_channel)) =
      [[1602], [1601], [1602], [1601], [1602]]" by (simp add: l)
  have sm: "sum_list (ch_audio_cadence test_channel) = 8008" by (simp add: l)
  from cadence_rotation[OF a b d, of test_env] obtain s' ess where
    r1: "channel_loop test_env (length (ch_audio_cadence test_channel)) test_channel = Some (s', ess)"
    and r2: "map nb_samples_used ess = map (\<lambda>n. [n]) (rev (ch_audio_cadence test_channel))"
    and r3: "sum_list (concat (map nb_samples_used ess)) = sum_list (ch_audio_cadence test_channel)"
    and r4: "ch_audio_cadence s' = ch_audio_cadence test_channel"
    by blast
  from r1 have q1: "channel_loop test_env 5 test_channel = Some (s', ess)" unfolding len .
  from r2 have q2: "map nb_samples_used ess = [[1602], [1601], [1602], [1601], [1602]]"
    unfolding rv .
  from r3 have q3: "sum_list (concat (map nb_samples_used ess)) = 8008" unfolding sm .
  from r4 have q4: "ch_audio_cadence s' = [1602, 1601, 1602, 1601, 1602]" unfolding l .
  from q1 q2 q3 q4 a b d show ?thesis
    by (intro conjI exI[of _ s'] exI[of _ ess])
qed

subsection \<open>The order in which listeners are called\<close>

lemma called_ids_listeners:
  fixes es :: "('tc, 'f, 'm, 'ms) trace"
  shows "map fst es = map (\<lambda>l. Listener_call (fst l) t) ls \<Longrightarrow> called_ids es = map fst ls"
proof (induction ls arbitrary: es)
  case Nil
  then show ?case by simp
next
  case (Cons l ls)
  then obtain x es' where es: "es = (Listener_call (fst l) t, x) # es'"
    and rest: "map fst es' = map (\<lambda>l. Listener_call (fst l) t) ls"
    by (cases es) auto
  from Cons.IH[OF rest] es show ?case by simp
qed

text \<open>
  Claim C2, as stated, fails: the listener table is a \<^verbatim>\<open>std::unordered_map\<close>, and the
  loop of \<^verbatim>\<open>invoke_timecode_listeners\<close> follows the order in which that table iterates.
  With a table that links a new key at the head of its element list, the listener
  registered first, with id 0, is called after the listener registered second, with
  id 1.
\<close>

theorem listener_order_counterexample:
  "fst (add_timecode_listener test_env silent_listener test_channel) = 0 \<and>
   fst (add_timecode_listener test_env failing_listener
          (snd (add_timecode_listener test_env silent_listener test_channel))) = 1 \<and>
   filter is_listener_call (map fst (trace_of (tick_body test_env registered_channel))) =
     [Listener_call 1 1, Listener_call 0 1]"
  by code_simp

text \<open>
  Claim C2, amended. The listeners are called in the order in which the listener table
  iterates, each once: the ids of the calls, in the order of the calls, are the keys of
  the table in its order of iteration. The calls are in ascending order of the ids
  exactly when the table iterates its keys in ascending order, which is the choice of
  the C++ library, not of the channel.
\<close>

theorem listeners_called_in_table_order:
  fixes s :: "('tc, 'ms, 'w) channel"
  shows "called_ids (trace_of (invoke_timecode_listeners t s
            :: unit result \<times> ('tc, 'ms, 'w) channel \<times> ('tc, 'f, 'm, 'ms) trace)) =
           map fst (ch_timecode_listeners s) \<and>
         (sorted_wrt (\<lambda>i j. sint i < sint j)
            (called_ids (trace_of (invoke_timecode_listeners t s
               :: unit result \<times> ('tc, 'ms, 'w) channel \<times> ('tc, 'f, 'm, 'ms) trace))) =
          sorted_wrt (\<lambda>i j. sint i < sint j) (map fst (ch_timecode_listeners s)))"
proof -
  obtain rL sL and esL :: "('tc, 'f, 'm, 'ms) trace" where
    L: "call_listeners (ch_timecode_listeners s) t s = (rL, sL, esL)"
    by (cases "call_listeners (ch_timecode_listeners s) t s
                :: _ \<times> _ \<times> ('tc, 'f, 'm, 'ms) trace") auto
  have "called_ids esL = map fst (ch_timecode_listeners s)"
    using called_ids_listeners[OF call_listeners_events[OF L]] .
  with L show ?thesis
    by (simp add: invoke_timecode_listeners_def trace_of_def)
qed

theorem listeners_called_in_table_order_witness:
  "called_ids (trace_of (invoke_timecode_listeners 1 registered_channel
      :: unit result \<times> (nat, string, nat) channel \<times> (nat, frame, nat, string) trace)) = [1, 0]"
proof -
  have "map fst (ch_timecode_listeners registered_channel) = [1, 0]" by code_simp
  with listeners_called_in_table_order[of 1 registered_channel, where ?'f = frame and ?'m = nat]
  show ?thesis by simp
qed

subsection \<open>The fan-out to the routes\<close>

lemma signal_layers_returns:
  fixes c :: "('tc, 'f, 'm, 'ms, 'w) environment"
  assumes ret: "\<And>a f w. fst (route_signal c a f w) = Returns ()"
  shows "\<exists>s' es. signal_layers c ps s = (Ok (), s', es)"
proof (induction ps arbitrary: s)
  case Nil
  then show ?case by (simp add: return_ok_def)
next
  case (Cons p ps)
  show ?case
  proof (cases "find_route (ch_routes s) (heap s) (fst p)")
    case None
    with Cons.IH[of s] show ?thesis
      by (auto simp: bnd_def return_ok_def)
  next
    case (Some a)
    obtain w where w: "route_signal c a (draw_frame_pop c (snd p)) (ext s) = (Returns (), w)"
      using ret[of a "draw_frame_pop c (snd p)" "ext s"]
      by (cases "route_signal c a (draw_frame_pop c (snd p)) (ext s)") auto
    with Some Cons.IH[of "s\<lparr>ext := w\<rparr>"] show ?thesis
      by (auto simp: bnd_def call_def)
  qed
qed

text \<open>
  Claim C5. When no signal throws, the fan-out of a tick with the frames
  \<open>stage_frames\<close> returns and makes exactly these calls: for each pair of layer and
  frame, in the order of the map, one signal with the popped frame to the route of the
  layer if the table of routes has the layer and its weak pointer upgrades, and none
  otherwise; then one signal, with the frame made of all the frames in that order, to
  the route of key \<open>-1\<close> if it is alive. The routes and the heap are as before.
\<close>

theorem route_fan_out:
  fixes c :: "('tc, 'f, 'm, 'ms, 'w) environment"
  assumes ret: "\<And>a f w. fst (route_signal c a f w) = Returns ()"
  shows "result_of (signal_routes c stage_frames s) = Ok () \<and>
     map fst (trace_of (signal_routes c stage_frames s)) =
       layer_signals c (ch_routes s) (heap s) stage_frames @
       channel_signal c (ch_routes s) (heap s) stage_frames \<and>
     (\<forall>x\<in>set (trace_of (signal_routes c stage_frames s)). snd x = None) \<and>
     ch_routes (state_of (signal_routes c stage_frames s)) = ch_routes s \<and>
     heap (state_of (signal_routes c stage_frames s)) = heap s"
proof -
  from signal_layers_returns[OF ret, of stage_frames s] obtain s1 es1 where
    layers: "signal_layers c stage_frames s = (Ok (), s1, es1)" by blast
  have "\<exists>s' es. signal_routes c stage_frames s = (Ok (), s', es)"
  proof (cases "find_route (ch_routes s1) (heap s1) (- 1)")
    case None
    with layers show ?thesis by (simp add: signal_routes_def bnd_def return_ok_def)
  next
    case (Some a)
    obtain w where "route_signal c a (draw_frame_of_frames c (map snd stage_frames)) (ext s1) = (Returns (), w)"
      using ret[of a "draw_frame_of_frames c (map snd stage_frames)" "ext s1"]
      by (cases "route_signal c a (draw_frame_of_frames c (map snd stage_frames)) (ext s1)") auto
    with Some layers show ?thesis by (simp add: signal_routes_def bnd_def call_def)
  qed
  then obtain s' es where run: "signal_routes c stage_frames s = (Ok (), s', es)" by blast
  have "same_core s s'"
    by (rule body_okD(1)[OF body_ok_signal_routes[of "\<lambda>_. True" False] run]) simp
  with signal_routes_Ok[OF run] run show ?thesis
    by (simp add: result_of_def state_of_def trace_of_def same_core_def)
qed


theorem route_fan_out_witness:
  "(\<forall>a f w. fst (route_signal test_env a f w) = Returns ()) \<and>
   result_of (signal_routes test_env [(0, Producer_frame 0), (1, Producer_frame 1)] routed_channel) = Ok () \<and>
   map fst (trace_of (signal_routes test_env [(0, Producer_frame 0), (1, Producer_frame 1)] routed_channel)) =
     [Route_signal 0 (Popped (Producer_frame 0)),
      Route_signal 1 (Frames [Producer_frame 0, Producer_frame 1])]"
proof -
  have ret: "\<And>a f w. fst (route_signal test_env a f w) = Returns ()"
    by (simp add: test_env_def)
  have ev: "layer_signals test_env (ch_routes routed_channel) (heap routed_channel)
              [(0, Producer_frame 0), (1, Producer_frame 1)] @
            channel_signal test_env (ch_routes routed_channel) (heap routed_channel)
              [(0, Producer_frame 0), (1, Producer_frame 1)] =
            ([Route_signal 0 (Popped (Producer_frame 0)),
              Route_signal 1 (Frames [Producer_frame 0, Producer_frame 1])]
             :: (nat, frame, nat, string) event list)"
    by code_simp
  from route_fan_out[OF ret, of "[(0, Producer_frame 0), (1, Producer_frame 1)]" routed_channel]
    ret ev show ?thesis by simp
qed

subsection \<open>Asking for a route\<close>

lemma route_alive:
  assumes "find_route (ch_routes s) (heap s) i = Some a"
  shows "route i s = (a, s\<lparr>ch_routes := ch_routes s, heap := acquire a (heap s)\<rparr>)"
  using assms
  by (auto simp: route_def find_route_def Let_def split: option.splits)

lemma route_new:
  assumes "find_route (ch_routes s) (heap s) i = None"
  shows "route i s =
     (length (heap s),
      s\<lparr>ch_routes := (ch_routes s)(i \<mapsto> Some (length (heap s))),
        heap := heap s @
          [\<lparr>obj = \<lparr>route_format_desc = ch_format_desc s,
                    route_name = lexical_cast (ch_index s) @
                      (if i \<noteq> - 1 then ''/'' @ lexical_cast i else [])\<rparr>,
            strong = 1\<rparr>]\<rparr>)"
  using assms
  by (auto simp: route_def find_route_def Let_def weak_lock_def split: option.splits)

lemma find_route_after_route:
  "find_route (ch_routes (snd (route i s))) (heap (snd (route i s))) i = Some (fst (route i s))"
proof (cases "find_route (ch_routes s) (heap s) i")
  case None
  then show ?thesis
    by (simp add: route_new find_route_def weak_lock_def)
next
  case (Some a)
  then show ?thesis
    by (auto simp: route_alive find_route_def weak_lock_def acquire_def split: option.splits if_splits)
qed

text \<open>
  Claim C8. \<^verbatim>\<open>route(i)\<close> returns the route stored under \<open>i\<close> when its weak pointer
  upgrades, and gives the caller one more owning pointer to it. Otherwise it makes a
  new route, with the format of the channel and the name of channel and layer, stores
  a weak pointer to it under \<open>i\<close> and returns it with one owner. In both cases the route
  returned is alive under \<open>i\<close> afterwards, so a second call with the same \<open>i\<close>, made
  while the first result is held, returns the same route.
\<close>

theorem route_idempotent:
  fixes s :: "('tc, 'ms, 'w) channel"
  shows "(\<forall>a. find_route (ch_routes s) (heap s) i = Some a \<longrightarrow>
            fst (route i s) = a \<and>
            length (heap (snd (route i s))) = length (heap s) \<and>
            obj (heap (snd (route i s)) ! a) = obj (heap s ! a) \<and>
            strong (heap (snd (route i s)) ! a) = Suc (strong (heap s ! a)) \<and>
            ch_routes (snd (route i s)) = ch_routes s) \<and>
         (find_route (ch_routes s) (heap s) i = None \<longrightarrow>
            fst (route i s) = length (heap s) \<and>
            heap (snd (route i s)) =
              heap s @ [\<lparr>obj = \<lparr>route_format_desc = ch_format_desc s,
                                route_name = lexical_cast (ch_index s) @
                                  (if i \<noteq> - 1 then ''/'' @ lexical_cast i else [])\<rparr>,
                        strong = 1\<rparr>] \<and>
            ch_routes (snd (route i s)) = (ch_routes s)(i \<mapsto> Some (length (heap s)))) \<and>
         find_route (ch_routes (snd (route i s))) (heap (snd (route i s))) i = Some (fst (route i s)) \<and>
         fst (route i (snd (route i s))) = fst (route i s)"
proof (intro conjI allI impI)
  fix a assume alive: "find_route (ch_routes s) (heap s) i = Some a"
  then have a: "a < length (heap s)"
    by (auto simp: find_route_def weak_lock_def split: option.splits if_splits)
  from alive a show "fst (route i s) = a"
    and "length (heap (snd (route i s))) = length (heap s)"
    and "obj (heap (snd (route i s)) ! a) = obj (heap s ! a)"
    and "strong (heap (snd (route i s)) ! a) = Suc (strong (heap s ! a))"
    and "ch_routes (snd (route i s)) = ch_routes s"
    by (simp_all add: route_alive acquire_def)
next
  assume dead: "find_route (ch_routes s) (heap s) i = None"
  then show "fst (route i s) = length (heap s)"
    and "heap (snd (route i s)) =
              heap s @ [\<lparr>obj = \<lparr>route_format_desc = ch_format_desc s,
                                route_name = lexical_cast (ch_index s) @
                                  (if i \<noteq> - 1 then ''/'' @ lexical_cast i else [])\<rparr>,
                        strong = 1\<rparr>]"
    and "ch_routes (snd (route i s)) = (ch_routes s)(i \<mapsto> Some (length (heap s)))"
    by (simp_all add: route_new)
next
  show "find_route (ch_routes (snd (route i s))) (heap (snd (route i s))) i = Some (fst (route i s))"
    by (rule find_route_after_route)
  then show "fst (route i (snd (route i s))) = fst (route i s)"
    by (simp add: route_alive)
qed

theorem route_idempotent_witness:
  "find_route (ch_routes test_channel) (heap test_channel) 0 = None \<and>
   fst (route 0 test_channel) = 0 \<and>
   find_route (ch_routes (snd (route 0 test_channel))) (heap (snd (route 0 test_channel))) 0 = Some 0 \<and>
   fst (route 0 (snd (route 0 test_channel))) = 0 \<and>
   strong (heap (snd (route 0 (snd (route 0 test_channel)))) ! 0) = 2"
proof -
  have dead: "find_route (ch_routes test_channel) (heap test_channel) 0 = None"
    by code_simp
  have h: "length (heap test_channel) = 0" by code_simp
  have one: "strong (heap (snd (route 0 test_channel)) ! 0) = 1" by code_simp
  note first = route_idempotent[of test_channel 0]
  from first dead have "fst (route 0 test_channel) = length (heap test_channel)" by blast
  then have a0: "fst (route 0 test_channel) = 0" unfolding h .
  from first have "find_route (ch_routes (snd (route 0 test_channel)))
      (heap (snd (route 0 test_channel))) 0 = Some (fst (route 0 test_channel))" by blast
  then have alive: "find_route (ch_routes (snd (route 0 test_channel)))
      (heap (snd (route 0 test_channel))) 0 = Some 0" unfolding a0 .
  note second = route_idempotent[of "snd (route 0 test_channel)" 0]
  from second alive have again: "fst (route 0 (snd (route 0 test_channel))) = 0"
    and "strong (heap (snd (route 0 (snd (route 0 test_channel)))) ! 0) =
           Suc (strong (heap (snd (route 0 test_channel)) ! 0))"
    by blast+
  then have two: "strong (heap (snd (route 0 (snd (route 0 test_channel)))) ! 0) = 2"
    unfolding one by simp
  from dead a0 alive again two show ?thesis by (intro conjI)
qed

subsection \<open>A change of format\<close>

lemma set_video_format_desc_Ok:
  fixes es :: "('tc, 'f, 'm, 'ms) trace"
  assumes "set_video_format_desc c fd s = (Ok u, s', es)"
  shows "\<exists>w1 w2. timecode_change_format c fd (ext s) = (Returns (), w1) \<and>
           stage_clear c w1 = (Returns (), w2) \<and>
           s' = s\<lparr>ch_format_desc := fd, ch_audio_cadence := audio_cadence fd, ext := w2\<rparr> \<and>
           es = [(Timecode_change_format fd, None), (Stage_clear, None)]"
  using assms
  by (auto simp: set_video_format_desc_def bnd_Ok call_Ok modify_Ok)

text \<open>
  Claim C6. When the setter \<^verbatim>\<open>video_format_desc(fd)\<close> returns, the stored descriptor is
  \<open>fd\<close>, the cadence of the channel is that of \<open>fd\<close>, and the two calls made are
  \<^verbatim>\<open>change_format(fd)\<close> on the timecode, then \<^verbatim>\<open>clear()\<close> on the stage, whose result is the
  external state the channel is left in. The next tick copies \<open>fd\<close> in its snapshot,
  and every call of it on the stage, the mixer and the output carries \<open>fd\<close>.
\<close>

theorem format_change:
  fixes c :: "('tc, 'f, 'm, 'ms, 'w) environment"
  assumes returned: "result_of (set_video_format_desc c fd s) = Ok ()"
  shows "ch_format_desc (state_of (set_video_format_desc c fd s)) = fd \<and>
     ch_audio_cadence (state_of (set_video_format_desc c fd s)) = audio_cadence fd \<and>
     trace_of (set_video_format_desc c fd s) =
       [(Timecode_change_format fd, None), (Stage_clear, None)] \<and>
     (\<exists>w1. timecode_change_format c fd (ext s) = (Returns (), w1) \<and>
            stage_clear c w1 = (Returns (), ext (state_of (set_video_format_desc c fd s)))) \<and>
     (audio_cadence fd \<noteq> [] \<longrightarrow>
        result_of (snapshot (state_of (set_video_format_desc c fd s))
           :: (video_format_desc \<times> int) result \<times> ('tc, 'ms, 'w) channel \<times> ('tc, 'f, 'm, 'ms) trace) =
          Ok (fd, last (audio_cadence fd)) \<and>
        (\<exists>es'. trace_of (tick_body c (state_of (set_video_format_desc c fd s))) =
                  (Snapshot fd (last (audio_cadence fd)), None) # es' \<and>
           (\<forall>x\<in>set es'. produce_event fd (last (audio_cadence fd)) (fst x) \<or>
                          is_listener_call (fst x) \<or> mix_event fd (fst x))))"
proof -
  obtain s' and es :: "('tc, 'f, 'm, 'ms) trace" where
    run: "set_video_format_desc c fd s = (Ok (), s', es)"
    using returned by (cases "set_video_format_desc c fd s") (auto simp: result_of_def)
  from set_video_format_desc_Ok[OF run] obtain w1 w2 where
    w: "timecode_change_format c fd (ext s) = (Returns (), w1)" "stage_clear c w1 = (Returns (), w2)"
    and s': "s' = s\<lparr>ch_format_desc := fd, ch_audio_cadence := audio_cadence fd, ext := w2\<rparr>"
    and es: "es = [(Timecode_change_format fd, None), (Stage_clear, None)]" by blast
  have sel: "state_of (set_video_format_desc c fd s) = s'"
    "trace_of (set_video_format_desc c fd s) = es"
    using run by (simp_all add: state_of_def trace_of_def)
  have next_tick: "audio_cadence fd \<noteq> [] \<longrightarrow>
        result_of (snapshot s'
           :: (video_format_desc \<times> int) result \<times> ('tc, 'ms, 'w) channel \<times> ('tc, 'f, 'm, 'ms) trace) =
          Ok (fd, last (audio_cadence fd)) \<and>
        (\<exists>es'. trace_of (tick_body c s') = (Snapshot fd (last (audio_cadence fd)), None) # es' \<and>
           (\<forall>x\<in>set es'. produce_event fd (last (audio_cadence fd)) (fst x) \<or>
                          is_listener_call (fst x) \<or> mix_event fd (fst x)))"
  proof
    assume ne: "audio_cadence fd \<noteq> []"
    then have ne': "ch_audio_cadence s' \<noteq> []" using s' by simp
    obtain r2 s2 and es2 :: "('tc, 'f, 'm, 'ms) trace" where run2: "tick_body c s' = (r2, s2, es2)"
      by (cases "tick_body c s'") auto
    have "result_of (snapshot s'
           :: (video_format_desc \<times> int) result \<times> ('tc, 'ms, 'w) channel \<times> ('tc, 'f, 'm, 'ms) trace) =
          Ok (fd, last (audio_cadence fd))"
      using ne' s' by (simp add: snapshot_eq result_of_def)
    with tick_body_props(5)[OF run2 ne'] s' run2
    show "result_of (snapshot s'
           :: (video_format_desc \<times> int) result \<times> ('tc, 'ms, 'w) channel \<times> ('tc, 'f, 'm, 'ms) trace) =
          Ok (fd, last (audio_cadence fd)) \<and>
        (\<exists>es'. trace_of (tick_body c s') = (Snapshot fd (last (audio_cadence fd)), None) # es' \<and>
           (\<forall>x\<in>set es'. produce_event fd (last (audio_cadence fd)) (fst x) \<or>
                          is_listener_call (fst x) \<or> mix_event fd (fst x)))"
      by (simp add: result_of_def trace_of_def)
  qed
  show ?thesis
    unfolding sel using w s' es next_tick by simp
qed


theorem format_change_witness:
  "result_of (set_video_format_desc test_env pal test_channel) = Ok () \<and>
   ch_format_desc (state_of (set_video_format_desc test_env pal test_channel)) = pal \<and>
   ch_audio_cadence (state_of (set_video_format_desc test_env pal test_channel)) = [1920] \<and>
   trace_of (set_video_format_desc test_env pal test_channel) =
     [(Timecode_change_format pal, None), (Stage_clear, None)] \<and>
   audio_cadence pal \<noteq> [] \<and>
   result_of (snapshot (state_of (set_video_format_desc test_env pal test_channel))
      :: (video_format_desc \<times> int) result \<times> (nat, string, nat) channel \<times> (nat, frame, nat, string) trace) =
     Ok (pal, 1920)"
proof -
  have returned: "result_of (set_video_format_desc test_env pal test_channel) = Ok ()"
    by code_simp
  have cad: "audio_cadence pal = [1920]" by (simp add: pal_def)
  from format_change[OF returned] returned cad show ?thesis by simp
qed

subsection \<open>The ids of the listeners\<close>

lemma sint_succ:
  fixes x :: int64
  assumes "sint x < 2 ^ 63 - 1"
  shows "sint (x + 1) = sint x + 1"
proof -
  have lo: "- (2 ^ 63) \<le> sint x" using sint_ge[of x] by simp
  have "sint (x + 1) = signed_take_bit 63 (sint x + 1)"
    by (simp add: sint_word_ariths)
  also have "\<dots> = sint x + 1"
    using lo assms by (intro signed_take_bit_int_eq_self) simp_all
  finally show ?thesis .
qed

lemma map_of_umap_erase:
  "map_of (umap_erase k t) k' = (if k' = k then None else map_of t k')"
  by (induction t) (auto simp: umap_erase_def)

lemma map_of_umap_insert:
  "k \<notin> fst ` set t \<Longrightarrow> map_of (umap_insert pos k v t) k' = (if k' = k then Some v else map_of t k')"
proof -
  assume fresh: "k \<notin> fst ` set t"
  have t: "take pos t @ drop pos t = t" by simp
  have "map_of (take pos t @ (k, v) # drop pos t) k' = (if k' = k then Some v else map_of t k')"
  proof (cases "k' = k")
    case True
    have "k \<notin> fst ` set (take pos t)" using fresh in_set_takeD by fastforce
    then have "map_of (take pos t) k = None" by (simp add: map_of_eq_None_iff)
    with True show ?thesis by (simp add: map_add_def)
  next
    case False
    have A: "map_of (take pos t @ (k, v) # drop pos t) k' =
        (map_of ((k, v) # drop pos t) ++ map_of (take pos t)) k'"
      by (simp only: map_of_append)
    have B: "map_of (take pos t @ drop pos t) k' = (map_of (drop pos t) ++ map_of (take pos t)) k'"
      by (simp only: map_of_append)
    have C: "map_of (take pos t @ drop pos t) k' = map_of t k'" by simp
    from A B C False show ?thesis by (simp add: map_add_def split: option.splits)
  qed
  with fresh show ?thesis by (simp add: umap_insert_def)
qed

lemma keys_umap_insert:
  "fst ` set (umap_insert pos k v t) = insert k (fst ` set t)"
proof -
  have "set (take pos t) \<union> set (drop pos t) = set t"
    using set_append[of "take pos t" "drop pos t"] by simp
  then have "set (take pos t @ (k, v) # drop pos t) = insert (k, v) (set t)" by auto
  then show ?thesis by (auto simp: umap_insert_def)
qed

lemma client_calls_sorted:
  fixes c :: "('tc, 'f, 'm, 'ms, 'w) environment"
  shows "sint (last_timecode_listener_id s) + int (length calls) < 2 ^ 63 \<Longrightarrow>
     sorted_wrt (\<lambda>i j. sint i < sint j) (fst (client_calls c calls s)) \<and>
     (\<forall>k\<in>set (fst (client_calls c calls s)). sint (last_timecode_listener_id s) \<le> sint k)"
proof (induction calls arbitrary: s)
  case Nil
  then show ?case by simp
next
  case (Cons call calls)
  show ?case
  proof (cases call)
    case (Add_listener l)
    obtain s1 where add: "add_timecode_listener c l s = (last_timecode_listener_id s, s1)"
      and next_id: "last_timecode_listener_id s1 = last_timecode_listener_id s + 1"
      by (simp add: add_timecode_listener_def Let_def)
    have room: "sint (last_timecode_listener_id s) < 2 ^ 63 - 1" using Cons.prems by simp
    have up: "sint (last_timecode_listener_id s1) = sint (last_timecode_listener_id s) + 1"
      unfolding next_id by (rule sint_succ[OF room])
    have "sint (last_timecode_listener_id s1) + int (length calls) < 2 ^ 63"
      using Cons.prems up by simp
    from Cons.IH[OF this] up
    have sorted: "sorted_wrt (\<lambda>i j. sint i < sint j) (fst (client_calls c calls s1))"
      and above: "\<forall>k\<in>set (fst (client_calls c calls s1)). sint (last_timecode_listener_id s) < sint k"
      by auto
    show ?thesis
      using Add_listener add sorted above
      by (auto simp: split_beta less_imp_le)
  next
    case (Drop_token k)
    have same: "last_timecode_listener_id (drop_token k s) = last_timecode_listener_id s"
      by (simp add: drop_token_def)
    have "sint (last_timecode_listener_id (drop_token k s)) + int (length calls) < 2 ^ 63"
      using Cons.prems same by simp
    from Cons.IH[OF this] same Drop_token show ?thesis by simp
  qed
qed

text \<open>
  Claim C9. \<^verbatim>\<open>add_timecode_listener\<close> hands out the value of its 64-bit counter and
  adds one to it. While the counter stays below its largest value (its overflow is
  undefined in C++, and \<open>2 ^ 63\<close> registrations away), the ids handed out by any
  sequence of registrations and cancellations are strictly increasing, and each is
  above every key of the table, which are all below the counter. A registration adds
  the listener under its id and leaves the other entries as they are. Dropping the
  token of id \<open>k\<close> erases the entry of \<open>k\<close> and nothing else.
\<close>

theorem listener_ids_fresh:
  fixes c :: "('tc, 'f, 'm, 'ms, 'w) environment" and s :: "('tc, 'ms, 'w) channel"
  assumes room: "sint (last_timecode_listener_id s) + int (length calls) < 2 ^ 63"
    and below: "\<forall>k\<in>fst ` set (ch_timecode_listeners s). sint k < sint (last_timecode_listener_id s)"
  shows "sorted_wrt (\<lambda>i j. sint i < sint j) (fst (client_calls c calls s)) \<and>
     (\<forall>k\<in>set (fst (client_calls c calls s)). sint (last_timecode_listener_id s) \<le> sint k) \<and>
     (calls \<noteq> [] \<longrightarrow>
        fst (add_timecode_listener c l s) = last_timecode_listener_id s \<and>
        (\<forall>k\<in>fst ` set (ch_timecode_listeners s). sint k < sint (fst (add_timecode_listener c l s))) \<and>
        sint (fst (add_timecode_listener c l s)) <
          sint (last_timecode_listener_id (snd (add_timecode_listener c l s))) \<and>
        (\<forall>k\<in>fst ` set (ch_timecode_listeners (snd (add_timecode_listener c l s))).
           sint k < sint (last_timecode_listener_id (snd (add_timecode_listener c l s)))) \<and>
        (\<forall>k. map_of (ch_timecode_listeners (snd (add_timecode_listener c l s))) k =
               (if k = fst (add_timecode_listener c l s) then Some l
                else map_of (ch_timecode_listeners s) k))) \<and>
     ch_timecode_listeners (drop_token k s) = filter (\<lambda>kv. fst kv \<noteq> k) (ch_timecode_listeners s) \<and>
     (\<forall>k'. map_of (ch_timecode_listeners (drop_token k s)) k' =
            (if k' = k then None else map_of (ch_timecode_listeners s) k')) \<and>
     last_timecode_listener_id (drop_token k s) = last_timecode_listener_id s"
proof (intro conjI impI)
  from client_calls_sorted[OF room, of c]
  show "sorted_wrt (\<lambda>i j. sint i < sint j) (fst (client_calls c calls s))"
    and "\<forall>k\<in>set (fst (client_calls c calls s)). sint (last_timecode_listener_id s) \<le> sint k"
    by simp_all
next
  assume "calls \<noteq> []"
  then have "sint (last_timecode_listener_id s) < 2 ^ 63 - 1"
    using room by (cases calls) simp_all
  note up = sint_succ[OF this]
  from up
  show "sint (fst (add_timecode_listener c l s)) <
          sint (last_timecode_listener_id (snd (add_timecode_listener c l s)))"
    by (simp add: add_timecode_listener_def Let_def)
  from up below
  show "\<forall>k\<in>fst ` set (ch_timecode_listeners (snd (add_timecode_listener c l s))).
           sint k < sint (last_timecode_listener_id (snd (add_timecode_listener c l s)))"
    by (auto simp: add_timecode_listener_def Let_def keys_umap_insert)
next
  show "fst (add_timecode_listener c l s) = last_timecode_listener_id s"
    by (simp add: add_timecode_listener_def Let_def)
  then show "\<forall>k\<in>fst ` set (ch_timecode_listeners s). sint k < sint (fst (add_timecode_listener c l s))"
    using below by simp
  have fresh: "last_timecode_listener_id s \<notin> fst ` set (ch_timecode_listeners s)"
    using below by fastforce
  show "\<forall>k. map_of (ch_timecode_listeners (snd (add_timecode_listener c l s))) k =
               (if k = fst (add_timecode_listener c l s) then Some l
                else map_of (ch_timecode_listeners s) k)"
    using fresh by (simp add: add_timecode_listener_def Let_def map_of_umap_insert)
next
  show "ch_timecode_listeners (drop_token k s) = filter (\<lambda>kv. fst kv \<noteq> k) (ch_timecode_listeners s)"
    by (simp add: drop_token_def umap_erase_def)
  show "\<forall>k'. map_of (ch_timecode_listeners (drop_token k s)) k' =
            (if k' = k then None else map_of (ch_timecode_listeners s) k')"
    by (simp add: drop_token_def map_of_umap_erase)
  show "last_timecode_listener_id (drop_token k s) = last_timecode_listener_id s"
    by (simp add: drop_token_def)
qed


theorem listener_ids_fresh_witness:
  "map fst (ch_timecode_listeners registered_channel) = [1, 0] \<and>
   last_timecode_listener_id registered_channel = 2 \<and>
   fst (client_calls test_env
          [Add_listener silent_listener, Drop_token 0, Add_listener failing_listener]
          registered_channel) = [2, 3] \<and>
   sorted_wrt (\<lambda>i j. sint i < sint j)
     (fst (client_calls test_env
             [Add_listener silent_listener, Drop_token 0, Add_listener failing_listener]
             registered_channel)) \<and>
   fst (add_timecode_listener test_env silent_listener registered_channel) = 2 \<and>
   map fst (ch_timecode_listeners (drop_token 0 registered_channel)) = [1]"
proof -
  have keys: "map fst (ch_timecode_listeners registered_channel) = [1, 0]" by code_simp
  have counter: "last_timecode_listener_id registered_channel = 2" by code_simp
  have ids: "fst (client_calls test_env
          [Add_listener silent_listener, Drop_token 0, Add_listener failing_listener]
          registered_channel) = [2, 3]" by code_simp
  have dropped: "map fst (filter (\<lambda>kv. fst kv \<noteq> 0) (ch_timecode_listeners registered_channel)) = [1]"
    by code_simp
  have room: "sint (last_timecode_listener_id registered_channel) +
      int (length [Add_listener silent_listener, Drop_token 0, Add_listener failing_listener
                   :: (nat, nat) client_call]) < 2 ^ 63"
    unfolding counter by simp
  have "fst ` set (ch_timecode_listeners registered_channel) = set [1, 0]"
    using arg_cong[OF keys, of set] by simp
  then have below: "\<forall>k\<in>fst ` set (ch_timecode_listeners registered_channel).
      sint k < sint (last_timecode_listener_id registered_channel)"
    unfolding counter by simp
  from listener_ids_fresh[OF room below, of test_env silent_listener 0] keys counter ids dropped
  show ?thesis by simp
qed


end
